theory Spec2Isabelle
  imports Complex_Main "HOL-Library.Multiset" "HOL-Library.Log_Nat"
begin

section \<open>Strings\<close>

text \<open>
  The two engines of the org viewer work on JavaScript strings. A string is modelled as a
  list of 8-bit characters, read as the code units U+0000 to U+00FF; code units above
  U+00FF are outside the model. Within that range the white space of \<^verbatim>\<open>trim()\<close> and of
  the regular-expression class \<^verbatim>\<open>\s\<close> is TAB, LF, VT, FF, CR, SPACE and NBSP, and the line
  terminators that \<^verbatim>\<open>.\<close> refuses are LF and CR.
\<close>

definition isSpace :: "char \<Rightarrow> bool" where
  "isSpace c \<longleftrightarrow>
     c = CHR 0x09 \<or> c = CHR 0x0A \<or> c = CHR 0x0B \<or> c = CHR 0x0C \<or> c = CHR 0x0D \<or>
     c = CHR 0x20 \<or> c = CHR 0xA0"

definition isLineTerminator :: "char \<Rightarrow> bool" where
  "isLineTerminator c \<longleftrightarrow> c = CHR 0x0A \<or> c = CHR 0x0D"

definition isDigit :: "char \<Rightarrow> bool" where
  "isDigit c \<longleftrightarrow> (let n = (of_char c :: nat) in 48 \<le> n \<and> n \<le> 57)"

text \<open>\<^verbatim>\<open>s.trim()\<close>\<close>

definition trim :: "string \<Rightarrow> string" where
  "trim s = rev (dropWhile isSpace (rev (dropWhile isSpace s)))"

text \<open>The right half of \<open>trim\<close>.\<close>

definition rtrim :: "string \<Rightarrow> string" where
  "rtrim s = rev (dropWhile isSpace (rev s))"

text \<open>\<^verbatim>\<open>s.split(d)\<close> for a one-character separator: never the empty list.\<close>

fun splitOn :: "char \<Rightarrow> string \<Rightarrow> string list" where
  "splitOn d [] = [[]]"
| "splitOn d (c # cs) =
     (if c = d then [] # splitOn d cs
      else (case splitOn d cs of [] \<Rightarrow> [[c]] | x # xs \<Rightarrow> (c # x) # xs))"

text \<open>\<^verbatim>\<open>xs.join(sep)\<close>\<close>

fun joinWith :: "string \<Rightarrow> string list \<Rightarrow> string" where
  "joinWith sep [] = []"
| "joinWith sep [x] = x"
| "joinWith sep (x # y # ys) = x @ sep @ joinWith sep (y # ys)"

text \<open>
  \<^verbatim>\<open>s.toLowerCase()\<close> on the code units of the model: the ASCII capitals and the Latin-1
  capitals U+00C0 to U+00DE (the multiplication sign U+00D7 apart) move up by 32.
\<close>

definition lowerChar :: "char \<Rightarrow> char" where
  "lowerChar c =
     (let n = (of_char c :: nat)
      in if (65 \<le> n \<and> n \<le> 90) \<or> (192 \<le> n \<and> n \<le> 222 \<and> n \<noteq> 215)
         then char_of (n + 32) else c)"

definition toLowerCase :: "string \<Rightarrow> string" where
  "toLowerCase s = map lowerChar s"

text \<open>
  Case-insensitive comparison of a regular expression with the \<^verbatim>\<open>i\<close> flag against an
  ASCII pattern: only the two ASCII cases of a letter match it.
\<close>

definition asciiLower :: "char \<Rightarrow> char" where
  "asciiLower c =
     (let n = (of_char c :: nat) in if 65 \<le> n \<and> n \<le> 90 then char_of (n + 32) else c)"

definition startsWith :: "string \<Rightarrow> string \<Rightarrow> bool" where
  "startsWith s p \<longleftrightarrow> take (length p) s = p"

definition startsWithCI :: "string \<Rightarrow> string \<Rightarrow> bool" where
  "startsWithCI s p \<longleftrightarrow> map asciiLower (take (length p) s) = map asciiLower p"

text \<open>\<^verbatim>\<open>a.includes(b)\<close>: \<open>b\<close> occurs in \<open>a\<close> as a contiguous run.\<close>

fun includesStr :: "string \<Rightarrow> string \<Rightarrow> bool" where
  "includesStr [] b = (b = [])"
| "includesStr (c # cs) b = (take (length b) (c # cs) = b \<or> includesStr cs b)"

text \<open>\<^verbatim>\<open>s.replace(/\s+/g, ' ')\<close>: every run of white space becomes one space.\<close>

function collapseWs :: "string \<Rightarrow> string" where
  "collapseWs [] = []"
| "collapseWs (c # cs) =
     (if isSpace c then CHR '' '' # collapseWs (dropWhile isSpace cs) else c # collapseWs cs)"
  by pat_completeness auto
termination
  by (relation "measure length") (auto simp: length_dropWhile_le less_Suc_eq_le)

text \<open>The white-space-delimited tokens of a string: its maximal runs of other characters.\<close>

function wsTokens :: "string \<Rightarrow> string list" where
  "wsTokens [] = []"
| "wsTokens (c # cs) =
     (if isSpace c then wsTokens cs
      else (c # takeWhile (\<lambda>x. \<not> isSpace x) cs) # wsTokens (dropWhile (\<lambda>x. \<not> isSpace x) cs))"
  by pat_completeness auto
termination
  by (relation "measure length") (auto simp: length_dropWhile_le less_Suc_eq_le)

section \<open>The CSV extract (csvImport.ts)\<close>

record CsvRow =
  portfolio :: string
  csvGroup :: string
  teamName :: string
  role :: string
  location :: string
  vendor :: string
  name :: string
  lineNumber :: nat

text \<open>
  The body of the loop of \<^verbatim>\<open>parseCsv\<close> for the line at index \<open>i\<close>: the row it pushes, or
  nothing where the source says \<^verbatim>\<open>continue\<close>.
\<close>

definition parseCsvLine :: "nat \<Rightarrow> string \<Rightarrow> CsvRow option" where
  "parseCsvLine i l =
     (let line = trim l in
      if line = [] then None
      else
        let parts = splitOn CHR '','' line; n = length parts in
        if n < 7 then None
        else Some \<lparr>
          portfolio = trim (parts ! 0),
          csvGroup = trim (parts ! 1),
          teamName = trim (joinWith '','' (take (n - 4 - 2) (drop 2 parts))),
          role = trim (parts ! (n - 4)),
          location = trim (parts ! (n - 3)),
          vendor = trim (parts ! (n - 2)),
          name = trim (parts ! (n - 1)),
          lineNumber = i + 1 \<rparr>)"

fun parseCsvLoop :: "string list \<Rightarrow> nat \<Rightarrow> CsvRow list" where
  "parseCsvLoop [] i = []"
| "parseCsvLoop (l # ls) i =
     (case parseCsvLine i l of
        None \<Rightarrow> parseCsvLoop ls (i + 1)
      | Some r \<Rightarrow> r # parseCsvLoop ls (i + 1))"

text \<open>\<^verbatim>\<open>csvText.trim().split('\n').filter(line => line.trim())\<close>\<close>

definition csvLines :: "string \<Rightarrow> string list" where
  "csvLines csvText = filter (\<lambda>line. trim line \<noteq> []) (splitOn CHR 0x0A (trim csvText))"

definition parseCsv :: "string \<Rightarrow> CsvRow list" where
  "parseCsv csvText = parseCsvLoop (csvLines csvText) 0"

section \<open>Fuzzy name matching (csvImport.ts)\<close>

text \<open>
  \<^verbatim>\<open>name.replace(/^(mr\.?|ms\.?|mrs\.?|miss\.?|dr\.?)\s*/i, '')\<close>. The alternatives are tried
  in the order written and the rest of the pattern, \<^verbatim>\<open>\s*\<close>, never fails, so the first
  alternative that matches at the start of the name decides what is removed: the
  honorific, a full stop if one follows, and the white space after it.
\<close>

definition honorifics :: "string list" where
  "honorifics = [''mr'', ''ms'', ''mrs'', ''miss'', ''dr'']"

fun stripHonorific :: "string list \<Rightarrow> string \<Rightarrow> string" where
  "stripHonorific [] s = s"
| "stripHonorific (h # hs) s =
     (if startsWithCI s h then
        (let r = drop (length h) s;
             r' = (case r of [] \<Rightarrow> [] | c # cs \<Rightarrow> if c = CHR ''.'' then cs else r)
         in dropWhile isSpace r')
      else stripHonorific hs s)"

definition normaliseName :: "string \<Rightarrow> string" where
  "normaliseName nm = trim (collapseWs (stripHonorific honorifics nm))"

text \<open>\<^verbatim>\<open>a.split(' ').pop() || ''\<close> and \<^verbatim>\<open>a.split(' ')[0] || ''\<close>\<close>

definition lastToken :: "string \<Rightarrow> string" where
  "lastToken a = last (splitOn CHR '' '' a)"

definition firstToken :: "string \<Rightarrow> string" where
  "firstToken a = (case splitOn CHR '' '' a of [] \<Rightarrow> [] | x # _ \<Rightarrow> x)"

text \<open>\<^verbatim>\<open>s[0]\<close>: the first character, \<^verbatim>\<open>undefined\<close> on the empty string.\<close>

definition charAt0 :: "string \<Rightarrow> char option" where
  "charAt0 s = (case s of [] \<Rightarrow> None | c # _ \<Rightarrow> Some c)"

definition namesMatch :: "string \<Rightarrow> string option \<Rightarrow> bool" where
  "namesMatch csvName appName =
     (case appName of
        None \<Rightarrow> False
      | Some an \<Rightarrow>
          if an = [] then False
          else
            let a = toLowerCase (normaliseName csvName);
                b = toLowerCase (normaliseName an)
            in if a = b then True
               else if includesStr a b \<or> includesStr b a then True
               else
                 let aLast = lastToken a; bLast = lastToken b
                 in if length aLast > 2 \<and> aLast = bLast
                    then (let aFirst = firstToken a; bFirst = firstToken b
                          in if charAt0 aFirst = charAt0 bFirst then True else False)
                    else False)"

section \<open>The organisation tree (types/org.ts)\<close>

datatype Location = onshore | nearshore | offshore

datatype EmployeeType = employee | contractor

text \<open>
  The six roles of \<^verbatim>\<open>Role\<close>. At run time a role that the text parser looks up in the plain
  object \<^verbatim>\<open>ROLE_FROM_LABEL\<close> can also be a member that every object inherits
  (\<^verbatim>\<open>constructor\<close>, \<^verbatim>\<open>__proto__\<close>); \<open>inherited_member\<close> stands for such a value, which is
  no role of the data model.
\<close>

datatype Role =
    engineer | senior_engineer | staff_engineer
  | engineering_manager | head_of_engineering | principal_engineer
  | inherited_member string

text \<open>
  The fields of the five node types carry a prefix (\<open>p_\<close>, \<open>t_\<close>, \<open>g_\<close>, \<open>d_\<close>, \<open>pf_\<close>),
  since the source uses \<^verbatim>\<open>id\<close> and \<^verbatim>\<open>name\<close> in each of them. An optional field is an
  \<open>option\<close>. The onshore target is a natural number (the data model has 0 to 100).
\<close>

record Person =
  p_id :: string
  p_name :: "string option"
  p_role :: Role
  p_type :: EmployeeType
  p_vendor :: "string option"
  p_location :: "Location option"

record Team =
  t_id :: string
  t_name :: string
  t_members :: "Person list"

record Group =
  g_id :: string
  g_name :: string
  g_manager :: "Person option"
  g_managedBy :: "string option"
  g_staffEngineers :: "Person list"
  g_teams :: "Team list"

record Division =
  d_id :: string
  d_name :: string
  d_groups :: "Group list"

record Portfolio =
  pf_id :: string
  pf_name :: string
  pf_headOfEngineering :: "Person option"
  pf_principalEngineers :: "Person list"
  pf_divisions :: "Division list option"
  pf_groups :: "Group list"
  pf_onshoreTargetPercentage :: "nat option"

definition allRoles :: "Role list" where
  "allRoles = [engineer, senior_engineer, staff_engineer, engineering_manager,
               head_of_engineering, principal_engineer]"

text \<open>\<^verbatim>\<open>ROLE_LABELS[role]\<close>, printed in a template: a missing entry prints as \<^verbatim>\<open>undefined\<close>.\<close>

fun ROLE_LABELS :: "Role \<Rightarrow> string" where
  "ROLE_LABELS engineer = ''Engineer''"
| "ROLE_LABELS senior_engineer = ''Senior Engineer''"
| "ROLE_LABELS staff_engineer = ''Staff Engineer''"
| "ROLE_LABELS engineering_manager = ''Engineering Manager''"
| "ROLE_LABELS head_of_engineering = ''Head of Engineering''"
| "ROLE_LABELS principal_engineer = ''Principal Engineer''"
| "ROLE_LABELS (inherited_member k) = ''undefined''"

text \<open>A role, a type and a location printed in a template.\<close>

fun roleString :: "Role \<Rightarrow> string" where
  "roleString engineer = ''engineer''"
| "roleString senior_engineer = ''senior_engineer''"
| "roleString staff_engineer = ''staff_engineer''"
| "roleString engineering_manager = ''engineering_manager''"
| "roleString head_of_engineering = ''head_of_engineering''"
| "roleString principal_engineer = ''principal_engineer''"
| "roleString (inherited_member k) =
     (if k = ''constructor'' then ''function Object() { [native code] }''
      else ''[object Object]'')"

fun typeString :: "EmployeeType \<Rightarrow> string" where
  "typeString employee = ''employee''"
| "typeString contractor = ''contractor''"

fun locationString :: "Location \<Rightarrow> string" where
  "locationString onshore = ''onshore''"
| "locationString nearshore = ''nearshore''"
| "locationString offshore = ''offshore''"

text \<open>
  A number printed in a template, and \<^verbatim>\<open>parseInt(digits, 10)\<close> on a run of digits. The
  numbers of the encoder and of the parser (the onshore target, the count of a line) are
  natural numbers in the model. The engine holds them exactly below \<open>2 ^ 53\<close>, and the model
  goes no further: numbers with a fraction, negative numbers and numbers from \<open>2 ^ 53\<close>
  on are outside of it.
\<close>

function showNat :: "nat \<Rightarrow> string" where
  "showNat n = (if n < 10 then [char_of (48 + n)] else showNat (n div 10) @ [char_of (48 + n mod 10)])"
  by pat_completeness auto
termination
  by (relation "measure id") auto

definition parseNat :: "string \<Rightarrow> nat" where
  "parseNat ds = foldl (\<lambda>a c. 10 * a + (of_char c - 48)) 0 ds"

section \<open>The text encoder (MarkdownView.tsx)\<close>

text \<open>\<^verbatim>\<open>x || 'Unnamed'\<close> and the truth value of an optional string.\<close>

definition truthy :: "string option \<Rightarrow> bool" where
  "truthy x \<longleftrightarrow> (case x of None \<Rightarrow> False | Some v \<Rightarrow> v \<noteq> [])"

definition nameOrUnnamed :: "Person \<Rightarrow> string" where
  "nameOrUnnamed p = (if truthy (p_name p) then the (p_name p) else ''Unnamed'')"

definition personProps :: "Person \<Rightarrow> string" where
  "personProps p =
     (if p_type p = employee then []
      else
        let parts = [''contractor''] @
              (case p_location p of
                 None \<Rightarrow> []
               | Some l \<Rightarrow> if l \<noteq> onshore then [locationString l] else []) @
              (if truthy (p_vendor p) then [the (p_vendor p)] else [])
        in '' ['' @ joinWith '', '' parts @ '']'')"

definition namedPersonLine :: "Person \<Rightarrow> string" where
  "namedPersonLine p = nameOrUnnamed p @ '', '' @ ROLE_LABELS (p_role p) @ personProps p"

definition leaderPersonLine :: "Person \<Rightarrow> string" where
  "leaderPersonLine p = nameOrUnnamed p @ personProps p"

definition groupingKey :: "Person \<Rightarrow> string" where
  "groupingKey p =
     roleString (p_role p) @ ''|'' @ typeString (p_type p) @ ''|'' @
     locationString (case p_location p of None \<Rightarrow> onshore | Some l \<Rightarrow> l) @ ''|'' @
     (case p_vendor p of None \<Rightarrow> [] | Some v \<Rightarrow> v)"

text \<open>
  The \<^verbatim>\<open>Map\<close> of unnamed members, in insertion order: the key, the first person seen
  with it, and the count. \<open>countUnnamed\<close> is the \<^verbatim>\<open>else\<close> branch of the first loop of
  \<^verbatim>\<open>formatTeamMembers\<close>.
\<close>

fun countUnnamed :: "string \<Rightarrow> Person \<Rightarrow> (string \<times> Person \<times> nat) list \<Rightarrow> (string \<times> Person \<times> nat) list" where
  "countUnnamed k m [] = [(k, m, 1)]"
| "countUnnamed k m ((k', e) # rest) =
     (if k' = k then (k', fst e, snd e + 1) # rest else (k', e) # countUnnamed k m rest)"

fun sortMembers ::
  "Person list \<Rightarrow> Person list \<times> (string \<times> Person \<times> nat) list \<Rightarrow>
   Person list \<times> (string \<times> Person \<times> nat) list" where
  "sortMembers [] acc = acc"
| "sortMembers (m # ms) (named, unnamed) =
     (if truthy (p_name m) then sortMembers ms (named @ [m], unnamed)
      else sortMembers ms (named, countUnnamed (groupingKey m) m unnamed))"

definition unnamedLine :: "string \<times> Person \<times> nat \<Rightarrow> string" where
  "unnamedLine e =
     (case e of (k, person, n) \<Rightarrow>
        ''- '' @ (if n > 1 then showNat n @ ''x '' else []) @
        ROLE_LABELS (p_role person) @ personProps person)"

definition formatTeamMembers :: "Person list \<Rightarrow> string list" where
  "formatTeamMembers members =
     (case sortMembers members ([], []) of
        (named, unnamed) \<Rightarrow>
          map unnamedLine unnamed @ map (\<lambda>p. ''- '' @ namedPersonLine p) named)"

definition teamLines :: "nat \<Rightarrow> Team \<Rightarrow> string list" where
  "teamLines depth team =
     [[], replicate (depth + 1) CHR ''#'' @ '' '' @ t_name team] @ formatTeamMembers (t_members team)"

definition generateGroupMarkdown :: "Group \<Rightarrow> nat \<Rightarrow> string" where
  "generateGroupMarkdown grp depth =
     joinWith [CHR 0x0A]
       ([replicate depth CHR ''#'' @ '' '' @ g_name grp] @
        (case g_manager grp of
           Some m \<Rightarrow> [''Manager: '' @ leaderPersonLine m]
         | None \<Rightarrow>
             if truthy (g_managedBy grp) then [''Managed by: '' @ the (g_managedBy grp)]
             else []) @
        map (\<lambda>se. ''Staff: '' @ leaderPersonLine se) (g_staffEngineers grp) @
        concat (map (teamLines depth) (g_teams grp)))"

text \<open>The loop of \<^verbatim>\<open>generateDivisionMarkdown\<close>: an empty line before every group but the first.\<close>

fun divisionGroupLines :: "Group list \<Rightarrow> nat \<Rightarrow> string list" where
  "divisionGroupLines [] i = []"
| "divisionGroupLines (g # gs) i =
     (if i > 0 then [[]] else []) @ [generateGroupMarkdown g 3] @ divisionGroupLines gs (i + 1)"

definition generateDivisionMarkdown :: "Division \<Rightarrow> string" where
  "generateDivisionMarkdown dv =
     joinWith [CHR 0x0A]
       ([''## Division: '' @ d_name dv, []] @ divisionGroupLines (d_groups dv) 0)"

definition generateMarkdown :: "Portfolio \<Rightarrow> string" where
  "generateMarkdown pf =
     (let target = (case pf_onshoreTargetPercentage pf of None \<Rightarrow> 50 | Some t \<Rightarrow> t)
      in joinWith [CHR 0x0A]
           ([''# '' @ pf_name pf @ '' ('' @ showNat target @ ''% onshore target)'', []] @
            (case pf_headOfEngineering pf of
               Some h \<Rightarrow> [''Head of Engineering: '' @ leaderPersonLine h]
             | None \<Rightarrow> []) @
            map (\<lambda>pe. ''Principal Engineer: '' @ leaderPersonLine pe) (pf_principalEngineers pf) @
            (case pf_divisions pf of
               None \<Rightarrow> []
             | Some ds \<Rightarrow> concat (map (\<lambda>d. [[], generateDivisionMarkdown d]) ds)) @
            concat (map (\<lambda>g. [[], generateGroupMarkdown g 2]) (pf_groups pf)))
         @ [CHR 0x0A])"

section \<open>The text parser (MarkdownView.tsx)\<close>

subsection \<open>The regular expressions\<close>

text \<open>
  The tail \<^verbatim>\<open>\s+(.+)$\<close> (\<open>m = 1\<close>) or \<^verbatim>\<open>\s*(.+)$\<close> (\<open>m = 0\<close>) of a pattern, run on what
  follows the literal prefix; the result is the group. The white space is taken greedily.
  If something follows it, that is the group, and it must be free of line terminators.
  If nothing follows it, the matcher backtracks by one character, which becomes the group.
\<close>

definition restAfterWs :: "nat \<Rightarrow> string \<Rightarrow> string option" where
  "restAfterWs m s =
     (let ws = takeWhile isSpace s; r = dropWhile isSpace s in
      if length ws < m then None
      else if r \<noteq> [] then (if list_all (\<lambda>c. \<not> isLineTerminator c) r then Some r else None)
      else if m < length ws \<and> \<not> isLineTerminator (last ws) then Some [last ws]
      else None)"

text \<open>\<^verbatim>\<open>/^LIT\s+(.+)$/\<close> and \<^verbatim>\<open>/^LIT\s*(.+)$/i\<close> for a literal \<open>LIT\<close>.\<close>

definition matchLit :: "string \<Rightarrow> nat \<Rightarrow> string \<Rightarrow> string option" where
  "matchLit lit m s = (if startsWith s lit then restAfterWs m (drop (length lit) s) else None)"

definition matchLitCI :: "string \<Rightarrow> nat \<Rightarrow> string \<Rightarrow> string option" where
  "matchLitCI lit m s = (if startsWithCI s lit then restAfterWs m (drop (length lit) s) else None)"

text \<open>The leftmost position at which a pattern anchored at its start matches.\<close>

fun searchFrom :: "(string \<Rightarrow> 'a option) \<Rightarrow> string \<Rightarrow> nat \<Rightarrow> (nat \<times> 'a) option" where
  "searchFrom f [] i = (case f [] of None \<Rightarrow> None | Some x \<Rightarrow> Some (i, x))"
| "searchFrom f (c # cs) i =
     (case f (c # cs) of None \<Rightarrow> searchFrom f cs (i + 1) | Some x \<Rightarrow> Some (i, x))"

text \<open>\<^verbatim>\<open>/\[([^\]]*)\]\s*$/\<close>: the index of the match and the matched text.\<close>

definition bracketAt :: "string \<Rightarrow> string option" where
  "bracketAt s =
     (case s of
        [] \<Rightarrow> None
      | c # r \<Rightarrow>
          if c = CHR ''['' then
            (case dropWhile (\<lambda>x. x \<noteq> CHR '']'') r of
               [] \<Rightarrow> None
             | _ # w \<Rightarrow> if list_all isSpace w then Some s else None)
          else None)"

definition bracketMatch :: "string \<Rightarrow> (nat \<times> string) option" where
  "bracketMatch s = searchFrom bracketAt s 0"

text \<open>\<^verbatim>\<open>/\((\d+)%\s*onshore\s*target\)\s*$/i\<close>: the index of the match and the digits.\<close>

definition targetAt :: "string \<Rightarrow> string option" where
  "targetAt s =
     (case s of
        [] \<Rightarrow> None
      | c # r \<Rightarrow>
          if c = CHR ''('' then
            (let ds = takeWhile isDigit r; r1 = dropWhile isDigit r in
             if ds = [] then None
             else
               (case r1 of
                  [] \<Rightarrow> None
                | p # r2 \<Rightarrow>
                    if p = CHR ''%'' then
                      (let r3 = dropWhile isSpace r2 in
                       if startsWithCI r3 ''onshore'' then
                         (let r4 = dropWhile isSpace (drop 7 r3) in
                          if startsWithCI r4 ''target)'' \<and> list_all isSpace (drop 7 r4)
                          then Some ds else None)
                       else None)
                    else None))
          else None)"

definition targetMatch :: "string \<Rightarrow> (nat \<times> string) option" where
  "targetMatch s = searchFrom targetAt s 0"

text \<open>\<^verbatim>\<open>/^(\d+)x\s+(.+)$/i\<close>: the digits and the second group.\<close>

definition quantityMatch :: "string \<Rightarrow> (string \<times> string) option" where
  "quantityMatch s =
     (let ds = takeWhile isDigit s; r = dropWhile isDigit s in
      if ds = [] then None
      else
        (case r of
           [] \<Rightarrow> None
         | c # r2 \<Rightarrow>
             if asciiLower c = CHR ''x'' then
               (case restAfterWs 1 r2 of None \<Rightarrow> None | Some g \<Rightarrow> Some (ds, g))
             else None))"

text \<open>\<^verbatim>\<open>s.lastIndexOf(c)\<close>, with \<open>None\<close> for -1, and \<^verbatim>\<open>s.replace(/,\s*$/, '')\<close>.\<close>

definition lastIndexOf :: "char \<Rightarrow> string \<Rightarrow> nat option" where
  "lastIndexOf c s =
     (if c \<in> set s then Some (length s - 1 - length (takeWhile (\<lambda>x. x \<noteq> c) (rev s))) else None)"

definition stripTrailingComma :: "string \<Rightarrow> string" where
  "stripTrailingComma s =
     (case dropWhile isSpace (rev s) of
        [] \<Rightarrow> s
      | c # rest \<Rightarrow> if c = CHR '','' then rev rest else s)"

subsection \<open>Person lines\<close>

text \<open>
  \<^verbatim>\<open>ROLE_FROM_LABEL[key]\<close>: the table is filled from the lower-cased labels; being a plain
  object it also answers with the members it inherits.
\<close>

definition ROLE_FROM_LABEL :: "string \<Rightarrow> Role option" where
  "ROLE_FROM_LABEL key =
     (case map_of (map (\<lambda>r. (toLowerCase (ROLE_LABELS r), r)) allRoles) key of
        Some r \<Rightarrow> Some r
      | None \<Rightarrow>
          if key = ''constructor'' \<or> key = ''__proto__'' then Some (inherited_member key)
          else None)"

text \<open>A person before an identifier is attached (\<^verbatim>\<open>Omit<Person, 'id'>\<close>).\<close>

record PersonSpec =
  s_name :: "string option"
  s_role :: Role
  s_type :: EmployeeType
  s_location :: Location
  s_vendor :: "string option"

definition withId :: "string \<Rightarrow> PersonSpec \<Rightarrow> Person" where
  "withId i sp =
     \<lparr> p_id = i, p_name = s_name sp, p_role = s_role sp, p_type = s_type sp,
       p_vendor = s_vendor sp, p_location = Some (s_location sp) \<rparr>"

type_synonym props = "EmployeeType \<times> Location \<times> string option"

definition propsStep :: "props \<Rightarrow> string \<Rightarrow> props" where
  "propsStep acc part =
     (case acc of (ty, loc, ven) \<Rightarrow>
        let lower = toLowerCase part in
        if lower = ''contractor'' then (contractor, loc, ven)
        else if lower = ''employee'' then (employee, loc, ven)
        else if lower = ''onshore'' then (ty, onshore, ven)
        else if lower = ''nearshore'' then (ty, nearshore, ven)
        else if lower = ''offshore'' then (ty, offshore, ven)
        else (ty, loc, Some part))"

definition parseProps :: "string \<Rightarrow> props" where
  "parseProps bracketStr =
     (let inner = trim (butlast (tl bracketStr));
          parts = filter (\<lambda>x. x \<noteq> []) (map trim (splitOn CHR '','' inner))
      in case foldl propsStep (employee, onshore, None) parts of
           (ty, loc, ven) \<Rightarrow> if ty = employee then (employee, onshore, None) else (ty, loc, ven))"

definition defaultProps :: props where
  "defaultProps = (employee, onshore, None)"

text \<open>The bracket suffix of a person line: what is left in front of it, and the properties.\<close>

definition splitProps :: "string \<Rightarrow> string \<times> props" where
  "splitProps trimmed =
     (case bracketMatch trimmed of
        None \<Rightarrow> (trimmed, defaultProps)
      | Some (idx, m) \<Rightarrow> (trim (take idx trimmed), parseProps m))"

definition mkSpec :: "string option \<Rightarrow> Role \<Rightarrow> props \<Rightarrow> PersonSpec" where
  "mkSpec nm r pr =
     (case pr of (ty, loc, ven) \<Rightarrow>
        \<lparr> s_name = nm, s_role = r, s_type = ty, s_location = loc, s_vendor = ven \<rparr>)"

definition unknownRole :: "string \<Rightarrow> string" where
  "unknownRole roleName = ''Unknown role '' @ [CHR 0x22] @ roleName @ [CHR 0x22]"

text \<open>\<open>Inl\<close> is the \<^verbatim>\<open>error\<close> of the source's result, \<open>Inr\<close> its \<^verbatim>\<open>persons\<close>.\<close>

definition parsePersonLine :: "string \<Rightarrow> string + PersonSpec list" where
  "parsePersonLine text =
     (let trimmed = trim text in
      if trimmed = [] then Inl ''Empty person line''
      else
        case splitProps trimmed of (mainPart, pr) \<Rightarrow>
          (case quantityMatch mainPart of
             Some (ds, g) \<Rightarrow>
               (let n = parseNat ds; roleName = trim g in
                case ROLE_FROM_LABEL (toLowerCase roleName) of
                  None \<Rightarrow> Inl (unknownRole roleName)
                | Some r \<Rightarrow> Inr (replicate n (mkSpec None r pr)))
           | None \<Rightarrow>
               (case lastIndexOf CHR '','' mainPart of
                  Some commaIdx \<Rightarrow>
                    (let nm = trim (take commaIdx mainPart);
                         roleName = trim (drop (commaIdx + 1) mainPart) in
                     case ROLE_FROM_LABEL (toLowerCase roleName) of
                       None \<Rightarrow> Inl (unknownRole roleName)
                     | Some r \<Rightarrow> Inr [mkSpec (Some nm) r pr])
                | None \<Rightarrow>
                    (case ROLE_FROM_LABEL (toLowerCase mainPart) of
                       None \<Rightarrow> Inl (unknownRole mainPart)
                     | Some r \<Rightarrow> Inr [mkSpec None r pr]))))"

definition parseLeadershipLine :: "string \<Rightarrow> string \<Rightarrow> Role \<Rightarrow> string + PersonSpec" where
  "parseLeadershipLine text prefix expectedRole =
     (let after = trim (drop (length prefix) text) in
      if after = [] then
        Inl (''Missing person details after '' @ [CHR 0x22] @ prefix @ [CHR 0x22])
      else
        case parsePersonLine after of
          Inl e \<Rightarrow>
            (case splitProps after of (mainPart, pr) \<Rightarrow>
               let mainPart' = trim (stripTrailingComma mainPart) in
               Inr (mkSpec (if mainPart' = [] then None else Some mainPart') expectedRole pr))
        | Inr persons \<Rightarrow>
            (case persons of
               [p] \<Rightarrow> Inr p
             | _ \<Rightarrow> Inl (''Expected exactly one person for '' @ [CHR 0x22] @ prefix @ [CHR 0x22])))"

subsection \<open>The scan\<close>

record ParseError =
  e_line :: nat
  e_message :: string

text \<open>
  The local variables of \<^verbatim>\<open>parseMarkdown\<close>. \<^verbatim>\<open>generateId\<close> draws from
  \<^verbatim>\<open>crypto.randomUUID()\<close>: the model takes the sequence of identifiers that the run will
  draw as a parameter \<open>ids\<close>, and \<open>nextId\<close> counts the draws.
\<close>

record PState =
  errors :: "ParseError list"
  portfolioName :: "string option"
  onshoreTarget :: nat
  headOfEngineering :: "Person option"
  principalEngineers :: "Person list"
  divisions :: "Division list"
  directGroups :: "Group list"
  currentDivision :: "Division option"
  currentGroup :: "Group option"
  currentTeam :: "Team option"
  groupInDivision :: bool
  nextId :: nat

definition initialState :: PState where
  "initialState =
     \<lparr> errors = [], portfolioName = None, onshoreTarget = 50, headOfEngineering = None,
       principalEngineers = [], divisions = [], directGroups = [], currentDivision = None,
       currentGroup = None, currentTeam = None, groupInDivision = False, nextId = 0 \<rparr>"

definition addError :: "nat \<Rightarrow> string \<Rightarrow> PState \<Rightarrow> PState" where
  "addError lineNum msg st = st\<lparr>errors := errors st @ [\<lparr>e_line = lineNum, e_message = msg\<rparr>]\<rparr>"

definition finishTeam :: "PState \<Rightarrow> PState" where
  "finishTeam st =
     (case (currentTeam st, currentGroup st) of
        (Some t, Some g) \<Rightarrow>
          st\<lparr>currentGroup := Some (g\<lparr>g_teams := g_teams g @ [t]\<rparr>), currentTeam := None\<rparr>
      | _ \<Rightarrow> st)"

definition finishGroup :: "PState \<Rightarrow> PState" where
  "finishGroup st0 =
     (let st = finishTeam st0 in
      case currentGroup st of
        None \<Rightarrow> st
      | Some g \<Rightarrow>
          (case (groupInDivision st, currentDivision st) of
             (True, Some d) \<Rightarrow>
               st\<lparr>currentDivision := Some (d\<lparr>d_groups := d_groups d @ [g]\<rparr>), currentGroup := None\<rparr>
           | _ \<Rightarrow> st\<lparr>directGroups := directGroups st @ [g], currentGroup := None\<rparr>))"

definition finishDivision :: "PState \<Rightarrow> PState" where
  "finishDivision st0 =
     (let st = finishGroup st0 in
      case currentDivision st of
        None \<Rightarrow> st
      | Some d \<Rightarrow> st\<lparr>divisions := divisions st @ [d], currentDivision := None\<rparr>)"

definition newTeam :: "(nat \<Rightarrow> string) \<Rightarrow> string \<Rightarrow> PState \<Rightarrow> PState" where
  "newTeam ids nm st =
     st\<lparr>currentTeam := Some \<lparr>t_id = ids (nextId st), t_name = nm, t_members = []\<rparr>,
        nextId := nextId st + 1\<rparr>"

definition newGroup :: "(nat \<Rightarrow> string) \<Rightarrow> string \<Rightarrow> bool \<Rightarrow> PState \<Rightarrow> PState" where
  "newGroup ids nm inDiv st =
     st\<lparr>currentGroup := Some \<lparr>g_id = ids (nextId st), g_name = nm, g_manager = None,
                               g_managedBy = None, g_staffEngineers = [], g_teams = []\<rparr>,
        groupInDivision := inDiv, nextId := nextId st + 1\<rparr>"

definition newDivision :: "(nat \<Rightarrow> string) \<Rightarrow> string \<Rightarrow> PState \<Rightarrow> PState" where
  "newDivision ids nm st =
     st\<lparr>currentDivision := Some \<lparr>d_id = ids (nextId st), d_name = nm, d_groups = []\<rparr>,
        groupInDivision := False, nextId := nextId st + 1\<rparr>"

text \<open>The members of a list item, each with a fresh identifier, pushed onto the open team.\<close>

fun pushMembers :: "(nat \<Rightarrow> string) \<Rightarrow> PersonSpec list \<Rightarrow> Team \<Rightarrow> nat \<Rightarrow> Team \<times> nat" where
  "pushMembers ids [] t n = (t, n)"
| "pushMembers ids (p # ps) t n =
     pushMembers ids ps (t\<lparr>t_members := t_members t @ [withId (ids n) p]\<rparr>) (n + 1)"

text \<open>The branches of the loop body below the headings, in the order of the source.\<close>

definition bodyLine :: "(nat \<Rightarrow> string) \<Rightarrow> nat \<Rightarrow> string \<Rightarrow> PState \<Rightarrow> PState" where
  "bodyLine ids lineNum trimmed st =
     (if matchLitCI ''Manager:'' 0 trimmed \<noteq> None then
        (case currentGroup st of
           None \<Rightarrow> addError lineNum ''Manager line found outside of a group'' st
         | Some g \<Rightarrow>
             (case parseLeadershipLine trimmed ''Manager:'' engineering_manager of
                Inl e \<Rightarrow> addError lineNum e st
              | Inr p \<Rightarrow>
                  st\<lparr>currentGroup := Some (g\<lparr>g_manager := Some (withId (ids (nextId st)) p)\<rparr>),
                     nextId := nextId st + 1\<rparr>))
      else
        case matchLitCI ''Managed by:'' 0 trimmed of
          Some m \<Rightarrow>
            (case currentGroup st of
               None \<Rightarrow> addError lineNum ''Managed by line found outside of a group'' st
             | Some g \<Rightarrow> st\<lparr>currentGroup := Some (g\<lparr>g_managedBy := Some (trim m)\<rparr>)\<rparr>)
        | None \<Rightarrow>
            if matchLitCI ''Staff:'' 0 trimmed \<noteq> None then
              (case currentGroup st of
                 None \<Rightarrow> addError lineNum ''Staff line found outside of a group'' st
               | Some g \<Rightarrow>
                   (case parseLeadershipLine trimmed ''Staff:'' staff_engineer of
                      Inl e \<Rightarrow> addError lineNum e st
                    | Inr p \<Rightarrow>
                        st\<lparr>currentGroup := Some (g\<lparr>g_staffEngineers :=
                               g_staffEngineers g @ [withId (ids (nextId st)) p]\<rparr>),
                           nextId := nextId st + 1\<rparr>))
            else
              case matchLit ''-'' 1 trimmed of
                Some item \<Rightarrow>
                  (case currentTeam st of
                     None \<Rightarrow>
                       addError lineNum
                         ''List item found outside of a team. Place it under a team heading.'' st
                   | Some t \<Rightarrow>
                       (case parsePersonLine item of
                          Inl e \<Rightarrow> addError lineNum e st
                        | Inr persons \<Rightarrow>
                            (case pushMembers ids persons t (nextId st) of
                               (t', n') \<Rightarrow> st\<lparr>currentTeam := Some t', nextId := n'\<rparr>)))
              | None \<Rightarrow>
                  if \<not> startsWith trimmed ''>'' \<and> \<not> startsWith trimmed ''---'' \<and>
                     \<not> startsWith trimmed ''<!--''
                  then addError lineNum
                         (''Unrecognized line: '' @ [CHR 0x22] @ trimmed @ [CHR 0x22]) st
                  else st)"

text \<open>The leadership lines, tried only while no division and no group is open.\<close>

definition leadershipLine :: "(nat \<Rightarrow> string) \<Rightarrow> nat \<Rightarrow> string \<Rightarrow> PState \<Rightarrow> PState" where
  "leadershipLine ids lineNum trimmed st =
     (if currentDivision st = None \<and> currentGroup st = None \<and>
         matchLitCI ''Head of Engineering:'' 0 trimmed \<noteq> None then
        (case parseLeadershipLine trimmed ''Head of Engineering:'' head_of_engineering of
           Inl e \<Rightarrow> addError lineNum e st
         | Inr p \<Rightarrow>
             st\<lparr>headOfEngineering := Some (withId (ids (nextId st)) p), nextId := nextId st + 1\<rparr>)
      else if currentDivision st = None \<and> currentGroup st = None \<and>
         matchLitCI ''Principal Engineer:'' 0 trimmed \<noteq> None then
        (case parseLeadershipLine trimmed ''Principal Engineer:'' principal_engineer of
           Inl e \<Rightarrow> addError lineNum e st
         | Inr p \<Rightarrow>
             st\<lparr>principalEngineers := principalEngineers st @ [withId (ids (nextId st)) p],
                nextId := nextId st + 1\<rparr>)
      else bodyLine ids lineNum trimmed st)"

text \<open>The body of the loop of \<^verbatim>\<open>parseMarkdown\<close> for one line.\<close>

definition parseLine :: "(nat \<Rightarrow> string) \<Rightarrow> nat \<Rightarrow> string \<Rightarrow> PState \<Rightarrow> PState" where
  "parseLine ids lineNum l st =
     (let trimmed = trim l in
      if trimmed = [] then st
      else
        case (if startsWith trimmed ''##'' then None else matchLit ''#'' 1 trimmed) of
          Some h1 \<Rightarrow>
            (let headingText = trim h1 in
             case targetMatch headingText of
               Some (idx, ds) \<Rightarrow>
                 st\<lparr>onshoreTarget := parseNat ds,
                    portfolioName := Some (trim (take idx headingText))\<rparr>
             | None \<Rightarrow> st\<lparr>portfolioName := Some headingText\<rparr>)
        | None \<Rightarrow>
            (case matchLit ''####'' 1 trimmed of
               Some h4 \<Rightarrow>
                 (if currentGroup st = None then
                    addError lineNum ''Team heading (####) found outside of a group'' st
                  else newTeam ids (trim h4) (finishTeam st))
             | None \<Rightarrow>
                 (case matchLit ''###'' 1 trimmed of
                    Some h3 \<Rightarrow>
                      (if currentDivision st \<noteq> None then
                         newGroup ids (trim h3) True (finishGroup st)
                       else if currentGroup st \<noteq> None then
                         newTeam ids (trim h3) (finishTeam st)
                       else addError lineNum
                         ''Heading ### found outside expected context (no division or group)'' st)
                  | None \<Rightarrow>
                      (case matchLit ''##'' 1 trimmed of
                         Some h2 \<Rightarrow>
                           (let headingText = trim h2 in
                            case matchLitCI ''Division:'' 0 headingText of
                              Some dn \<Rightarrow> newDivision ids (trim dn) (finishDivision st)
                            | None \<Rightarrow> newGroup ids headingText False (finishDivision st))
                       | None \<Rightarrow> leadershipLine ids lineNum trimmed st))))"

fun parseLines :: "(nat \<Rightarrow> string) \<Rightarrow> string list \<Rightarrow> nat \<Rightarrow> PState \<Rightarrow> PState" where
  "parseLines ids [] i st = st"
| "parseLines ids (l # ls) i st = parseLines ids ls (i + 1) (parseLine ids (i + 1) l st)"

text \<open>The portfolio update that a successful parse returns, and the result of the parser.\<close>

record PortfolioUpdate =
  u_name :: string
  u_onshoreTargetPercentage :: nat
  u_headOfEngineering :: "Person option"
  u_principalEngineers :: "Person list"
  u_divisions :: "Division list option"
  u_groups :: "Group list"

record ParseResult =
  r_portfolio :: "PortfolioUpdate option"
  r_errors :: "ParseError list"

definition parseMarkdown :: "(nat \<Rightarrow> string) \<Rightarrow> string \<Rightarrow> ParseResult" where
  "parseMarkdown ids text =
     (let st = finishGroup (finishDivision (parseLines ids (splitOn CHR 0x0A text) 0 initialState)) in
      if \<not> truthy (portfolioName st) then
        \<lparr> r_portfolio = None,
          r_errors = errors st @
            [\<lparr>e_line = 1, e_message = ''Missing portfolio heading (# Portfolio Name)''\<rparr>] \<rparr>
      else if length (errors st) > 0 then \<lparr> r_portfolio = None, r_errors = errors st \<rparr>
      else
        \<lparr> r_portfolio = Some
            \<lparr> u_name = the (portfolioName st),
              u_onshoreTargetPercentage = onshoreTarget st,
              u_headOfEngineering = headOfEngineering st,
              u_principalEngineers = principalEngineers st,
              u_divisions = (if length (divisions st) > 0 then Some (divisions st) else None),
              u_groups = directGroups st \<rparr>,
          r_errors = [] \<rparr>)"

section \<open>The import engine (csvImport.ts)\<close>

subsection \<open>Name similarity\<close>

text \<open>
  The scores of the engine are JavaScript numbers: binary64 values, every operation on
  them rounded to nearest, ties to the even significand. The model keeps a number as the
  rational that it denotes and rounds after each operation, as the engine does.
  \<open>binade x\<close> is the exponent \<open>e\<close> with \<open>2 ^ e \<le> \<bar>x\<bar> < 2 ^ (e + 1)\<close>. A binary64 value
  has 53 significant bits, so that the values next to \<open>x\<close> are \<open>2 ^ (e - 52)\<close> apart, and
  \<open>2 ^ (- 1074)\<close> apart below \<open>2 ^ (- 1022)\<close>. The numbers of the engine are quotients of
  two lengths and sums of three products of a score and a weight: they lie between 0 and
  2, no operation overflows, and the model has no infinity and no NaN. A length is a
  natural number below \<open>2 ^ 53\<close> in the engine and is not rounded.
\<close>

definition pow2 :: "int \<Rightarrow> rat" where
  "pow2 e = (if 0 \<le> e then 2 ^ nat e else 1 / 2 ^ nat (- e))"

definition binade :: "rat \<Rightarrow> int" where
  "binade x =
     (let (a, b) = quotient_of \<bar>x\<bar>; d = bitlen a - bitlen b
      in if pow2 d \<le> \<bar>x\<bar> then d else d - 1)"

text \<open>The integer nearest to \<open>x\<close>; half way between two integers, the even one.\<close>

definition roundEven :: "rat \<Rightarrow> int" where
  "roundEven x =
     (let f = \<lfloor>x\<rfloor>; d = x - of_int f
      in if d < 1 / 2 then f else if 1 / 2 < d then f + 1 else if even f then f else f + 1)"

text \<open>The binary64 value of a rational: of a decimal literal, or of an exact result.\<close>

definition fl :: "rat \<Rightarrow> rat" where
  "fl x =
     (if x = 0 then 0
      else let q = pow2 (max (binade x) (- 1022) - 52) in of_int (roundEven (x / q)) * q)"

text \<open>The operators \<^verbatim>\<open>+\<close>, \<^verbatim>\<open>*\<close> and \<^verbatim>\<open>/\<close> on numbers.\<close>

definition numAdd :: "rat \<Rightarrow> rat \<Rightarrow> rat" where
  "numAdd x y = fl (x + y)"

definition numMul :: "rat \<Rightarrow> rat \<Rightarrow> rat" where
  "numMul x y = fl (x * y)"

definition numDiv :: "rat \<Rightarrow> rat \<Rightarrow> rat" where
  "numDiv x y = fl (x / y)"

text \<open>\<^verbatim>\<open>normalise\<close>: lower case, delete what is not in \<^verbatim>\<open>[a-z0-9\s&-]\<close>, collapse, trim.\<close>

definition keptChar :: "char \<Rightarrow> bool" where
  "keptChar c \<longleftrightarrow>
     (let n = (of_char c :: nat) in 97 \<le> n \<and> n \<le> 122) \<or> isDigit c \<or> isSpace c \<or>
     c = CHR ''&'' \<or> c = CHR ''-''"

definition normalise :: "string \<Rightarrow> string" where
  "normalise s = trim (collapseWs (filter keptChar (toLowerCase s)))"

text \<open>\<^verbatim>\<open>s.split(/[\s&-]+/).filter(Boolean)\<close>: the maximal runs free of separators.\<close>

definition isSeparator :: "char \<Rightarrow> bool" where
  "isSeparator c \<longleftrightarrow> isSpace c \<or> c = CHR ''&'' \<or> c = CHR ''-''"

function nameTokens :: "string \<Rightarrow> string list" where
  "nameTokens [] = []"
| "nameTokens (c # cs) =
     (if isSeparator c then nameTokens cs
      else (c # takeWhile (\<lambda>x. \<not> isSeparator x) cs) #
           nameTokens (dropWhile (\<lambda>x. \<not> isSeparator x) cs))"
  by pat_completeness auto
termination
  by (relation "measure length") (auto simp: length_dropWhile_le less_Suc_eq_le)

definition similarityScore :: "string \<Rightarrow> string \<Rightarrow> rat" where
  "similarityScore a b =
     (let na = normalise a; nb = normalise b in
      if na = nb then 1
      else if includesStr na nb \<or> includesStr nb na then
        (let shorter = (if length na < length nb then na else nb);
             longer = (if length na < length nb then nb else na)
         in numAdd (fl (7 / 10))
              (numMul (fl (3 / 10)) (numDiv (of_nat (length shorter)) (of_nat (length longer)))))
      else
        (let tokensA = remdups (nameTokens na); tokensB = remdups (nameTokens nb) in
         if length tokensA = 0 \<or> length tokensB = 0 then 0
         else
           (let intersection = length (filter (\<lambda>t. t \<in> set tokensB) tokensA);
                union = length (remdups (tokensA @ tokensB))
            in numDiv (of_nat intersection) (of_nat union))))"

subsection \<open>Role and type mapping\<close>

definition mapRole :: "string \<Rightarrow> Role option" where
  "mapRole csvRole =
     (let r = trim (toLowerCase csvRole) in
      if r = ''engineer'' then Some engineer
      else if r = ''senior engineer'' then Some senior_engineer
      else if r = ''staff engineer'' then Some staff_engineer
      else if r = ''engineering manager'' then Some engineering_manager
      else if r = ''head of engineering'' then Some head_of_engineering
      else if r = ''principal engineer'' then Some principal_engineer
      else None)"

definition mapLocation :: "string \<Rightarrow> Location" where
  "mapLocation csvLocation =
     (let l = trim (toLowerCase csvLocation) in
      if l = ''offshore'' then offshore
      else if l = ''nearshore'' then nearshore
      else onshore)"

text \<open>
  \<^verbatim>\<open>s.toUpperCase()\<close> on the code units of the model. The sharp s becomes two letters. The
  micro sign and the y with diaeresis have their capitals above U+00FF: they are left as
  they are, which no comparison with an ASCII string can tell apart.
\<close>

definition upperChar :: "char \<Rightarrow> string" where
  "upperChar c =
     (let n = (of_char c :: nat)
      in if (97 \<le> n \<and> n \<le> 122) \<or> (224 \<le> n \<and> n \<le> 254 \<and> n \<noteq> 247)
         then [char_of (n - 32)]
         else if n = 223 then ''SS'' else [c])"

definition toUpperCase :: "string \<Rightarrow> string" where
  "toUpperCase s = concat (map upperChar s)"

definition mapTypeAndVendor :: "string \<Rightarrow> EmployeeType \<times> string option" where
  "mapTypeAndVendor v =
     (if toUpperCase v = ''M&S'' then (employee, None) else (contractor, Some v))"

subsection \<open>Candidates and scores\<close>

record AppTeamLocation =
  a_divisionId :: "string option"
  a_divisionName :: "string option"
  a_groupId :: string
  a_groupName :: string
  a_teamId :: string
  a_teamName :: string
  a_managerName :: "string option"

definition processGroup :: "Group \<Rightarrow> string option \<Rightarrow> string option \<Rightarrow> AppTeamLocation list" where
  "processGroup grp divisionId divisionName =
     map (\<lambda>team.
        \<lparr> a_divisionId = divisionId, a_divisionName = divisionName,
          a_groupId = g_id grp, a_groupName = g_name grp,
          a_teamId = t_id team, a_teamName = t_name team,
          a_managerName = (case g_manager grp of None \<Rightarrow> None | Some m \<Rightarrow> p_name m) \<rparr>)
       (g_teams grp)"

definition enumerateTeams :: "Portfolio \<Rightarrow> AppTeamLocation list" where
  "enumerateTeams pf =
     concat (map (\<lambda>dv. concat (map (\<lambda>grp. processGroup grp (Some (d_id dv)) (Some (d_name dv)))
                                  (d_groups dv)))
               (case pf_divisions pf of None \<Rightarrow> [] | Some ds \<Rightarrow> ds)) @
     concat (map (\<lambda>grp. processGroup grp None None) (pf_groups pf))"

record CsvTeamGroup =
  c_csvGroup :: string
  c_csvTeam :: string
  c_rows :: "CsvRow list"
  c_managers :: "CsvRow list"
  c_engineers :: "CsvRow list"

text \<open>
  The \<^verbatim>\<open>Map\<close> of \<^verbatim>\<open>groupCsvRows\<close>, in insertion order. \<open>pushRow\<close> is the part of the loop
  body after the group of the row has been found or made.
\<close>

definition pushRow :: "CsvRow \<Rightarrow> CsvTeamGroup \<Rightarrow> CsvTeamGroup" where
  "pushRow row g =
     (let g1 = g\<lparr>c_rows := c_rows g @ [row]\<rparr>; r = mapRole (role row) in
      if r = Some engineering_manager then g1\<lparr>c_managers := c_managers g1 @ [row]\<rparr>
      else if r = Some engineer \<or> r = Some senior_engineer
      then g1\<lparr>c_engineers := c_engineers g1 @ [row]\<rparr>
      else g1)"

fun updateGroup :: "string \<Rightarrow> CsvRow \<Rightarrow> (string \<times> CsvTeamGroup) list \<Rightarrow> (string \<times> CsvTeamGroup) list" where
  "updateGroup k row [] =
     [(k, pushRow row \<lparr> c_csvGroup = csvGroup row, c_csvTeam = teamName row,
                        c_rows = [], c_managers = [], c_engineers = [] \<rparr>)]"
| "updateGroup k row ((k', g) # rest) =
     (if k' = k then (k', pushRow row g) # rest else (k', g) # updateGroup k row rest)"

definition groupCsvRows :: "CsvRow list \<Rightarrow> CsvTeamGroup list" where
  "groupCsvRows rows =
     map snd (foldl (\<lambda>m row. updateGroup (csvGroup row @ ''|||'' @ teamName row) row m) [] rows)"

text \<open>
  The reason of a match is a text with the two percentages; the model keeps what the text
  is made of.
\<close>

datatype ContextReason = DivisionContext string | GroupContext string

record MatchReason =
  mr_teamScore :: rat
  mr_context :: ContextReason
  mr_contextScore :: rat
  mr_managerConfirmed :: bool

record ScoreResult =
  score :: rat
  reason :: MatchReason
  managerConfirmed :: bool

definition scoreMatch :: "CsvTeamGroup \<Rightarrow> AppTeamLocation \<Rightarrow> ScoreResult" where
  "scoreMatch csvTeamGroup appTeam =
     (let teamScore = similarityScore (c_csvTeam csvTeamGroup) (a_teamName appTeam);
          (contextScore, contextReason) =
            (if truthy (a_divisionName appTeam) then
               (let divScore = similarityScore (c_csvGroup csvTeamGroup) (the (a_divisionName appTeam));
                    grpScore = similarityScore (c_csvGroup csvTeamGroup) (a_groupName appTeam)
                in (max divScore grpScore,
                    if divScore \<ge> grpScore then DivisionContext (the (a_divisionName appTeam))
                    else GroupContext (a_groupName appTeam)))
             else (similarityScore (c_csvGroup csvTeamGroup) (a_groupName appTeam),
                   GroupContext (a_groupName appTeam)));
          managerConfirmed =
            list_ex (\<lambda>mgr. namesMatch (name mgr) (a_managerName appTeam)) (c_managers csvTeamGroup);
          managerBonus = (if managerConfirmed then fl (15 / 100) else 0);
          totalScore =
            numAdd (numAdd (numMul teamScore (fl (55 / 100))) (numMul contextScore (fl (30 / 100))))
              managerBonus
      in \<lparr> score = totalScore,
           reason = \<lparr> mr_teamScore = teamScore, mr_context = contextReason,
                      mr_contextScore = contextScore, mr_managerConfirmed = managerConfirmed \<rparr>,
           managerConfirmed = managerConfirmed \<rparr>)"

definition MATCH_THRESHOLD :: rat where
  "MATCH_THRESHOLD = fl (45 / 100)"

subsection \<open>The report and the replacement plan\<close>

record MatchedTeam =
  m_csvGroup :: string
  m_csvTeam :: string
  m_appDivision :: "string option"
  m_appGroup :: string
  m_appTeam :: string
  m_matchReason :: MatchReason
  m_managerConfirmed :: bool

record PersonChange =
  pc_name :: string
  pc_role :: string
  pc_location :: string
  pc_vendor :: string
  pc_type :: EmployeeType

record TeamChange =
  tc_match :: MatchedTeam
  tc_added :: "PersonChange list"
  tc_removed :: "PersonChange list"

text \<open>The reasons are texts in the source; the model keeps which text and its parameters.\<close>

datatype SkipReason =
    NoMatchingTeam string string
  | UnknownRole string
  | ManagerMatchingOnly
  | StaffNotImported
  | LeadershipNotImported string

record SkippedRow =
  sk_row :: CsvRow
  sk_reason :: SkipReason

datatype UnmatchedReason = BestCandidate AppTeamLocation rat | NoCandidates

record UnmatchedTeam =
  um_csvGroup :: string
  um_csvTeam :: string
  um_rowCount :: nat
  um_reason :: UnmatchedReason

record Summary =
  teamsMatched :: nat
  teamsUnmatched :: nat
  membersAdded :: nat
  membersRemoved :: nat
  rowsSkipped :: nat

record ImportReport =
  ir_teamChanges :: "TeamChange list"
  ir_skippedRows :: "SkippedRow list"
  ir_unmatchedTeams :: "UnmatchedTeam list"
  ir_summary :: Summary

record TeamMemberReplacement =
  portfolioId :: string
  divisionId :: "string option"
  groupId :: string
  teamId :: string
  newMembers :: "Person list"

text \<open>
  The local variables of \<^verbatim>\<open>analyseImport\<close>, and the count of the identifiers drawn from
  \<^verbatim>\<open>crypto.randomUUID()\<close> so far (the sequence \<open>ids\<close> is a parameter, as in the parser).
\<close>

record ImportState =
  teamChanges :: "TeamChange list"
  skippedRows :: "SkippedRow list"
  unmatchedTeams :: "UnmatchedTeam list"
  replacements :: "TeamMemberReplacement list"
  claimedTeams :: "string set"
  drawn :: nat

text \<open>The inner loop over the candidate teams: the best unclaimed one so far.\<close>

definition bestStep ::
  "string set \<Rightarrow> CsvTeamGroup \<Rightarrow> (AppTeamLocation \<times> ScoreResult) option \<Rightarrow> AppTeamLocation \<Rightarrow>
   (AppTeamLocation \<times> ScoreResult) option" where
  "bestStep claimed g best appTeam =
     (if a_teamId appTeam \<in> claimed then best
      else
        let result = scoreMatch g appTeam in
        case best of
          None \<Rightarrow> Some (appTeam, result)
        | Some (bestMatch, bestResult) \<Rightarrow>
            if score result > score bestResult then Some (appTeam, result) else best)"

definition findBest ::
  "string set \<Rightarrow> CsvTeamGroup \<Rightarrow> AppTeamLocation list \<Rightarrow> (AppTeamLocation \<times> ScoreResult) option" where
  "findBest claimed g appTeams = foldl (bestStep claimed g) None appTeams"

text \<open>The loop over the rows of a matched group: new persons, additions, skipped rows.\<close>

fun importRows ::
  "(nat \<Rightarrow> string) \<Rightarrow> CsvRow list \<Rightarrow> nat \<Rightarrow>
   Person list \<times> PersonChange list \<times> SkippedRow list \<times> nat" where
  "importRows ids [] n = ([], [], [], n)"
| "importRows ids (row # rows) n =
     (case mapRole (role row) of
        None \<Rightarrow>
          (case importRows ids rows n of (ps, cs, sk, n') \<Rightarrow>
             (ps, cs, \<lparr>sk_row = row, sk_reason = UnknownRole (role row)\<rparr> # sk, n'))
      | Some r \<Rightarrow>
          if r = engineering_manager then
            (case importRows ids rows n of (ps, cs, sk, n') \<Rightarrow>
               (ps, cs, \<lparr>sk_row = row, sk_reason = ManagerMatchingOnly\<rparr> # sk, n'))
          else if r = staff_engineer then
            (case importRows ids rows n of (ps, cs, sk, n') \<Rightarrow>
               (ps, cs, \<lparr>sk_row = row, sk_reason = StaffNotImported\<rparr> # sk, n'))
          else if r = principal_engineer \<or> r = head_of_engineering then
            (case importRows ids rows n of (ps, cs, sk, n') \<Rightarrow>
               (ps, cs, \<lparr>sk_row = row, sk_reason = LeadershipNotImported (role row)\<rparr> # sk, n'))
          else
            (case mapTypeAndVendor (vendor row) of (ty, ven) \<Rightarrow>
               let loc = (if ty = employee then onshore else mapLocation (location row));
                   cleanName = normaliseName (name row);
                   person = \<lparr> p_id = ids n, p_name = Some cleanName, p_role = r, p_type = ty,
                              p_vendor = (if truthy ven then ven else None),
                              p_location = Some loc \<rparr>;
                   change = \<lparr> pc_name = cleanName, pc_role = role row, pc_location = location row,
                              pc_vendor = vendor row, pc_type = ty \<rparr>
               in case importRows ids rows (n + 1) of (ps, cs, sk, n') \<Rightarrow>
                    (person # ps, change # cs, sk, n')))"

definition findTeamInPortfolio :: "Portfolio \<Rightarrow> string \<Rightarrow> Team option" where
  "findTeamInPortfolio pf tid =
     find (\<lambda>team. t_id team = tid)
       (concat (map (\<lambda>dv. concat (map g_teams (d_groups dv)))
                  (case pf_divisions pf of None \<Rightarrow> [] | Some ds \<Rightarrow> ds)) @
        concat (map g_teams (pf_groups pf)))"

definition removedChange :: "Person \<Rightarrow> PersonChange" where
  "removedChange member =
     \<lparr> pc_name = nameOrUnnamed member,
       pc_role = (if p_role member = engineer then ''Engineer'' else ''Senior Engineer''),
       pc_location = (case p_location member of None \<Rightarrow> ''onshore'' | Some l \<Rightarrow> locationString l),
       pc_vendor = (if truthy (p_vendor member) then the (p_vendor member) else []),
       pc_type = p_type member \<rparr>"

definition isEngineer :: "Person \<Rightarrow> bool" where
  "isEngineer member \<longleftrightarrow> p_role member = engineer \<or> p_role member = senior_engineer"

text \<open>The body of the outer loop of \<^verbatim>\<open>analyseImport\<close> for one CSV team-group.\<close>

definition importGroup ::
  "(nat \<Rightarrow> string) \<Rightarrow> Portfolio \<Rightarrow> AppTeamLocation list \<Rightarrow> ImportState \<Rightarrow> CsvTeamGroup \<Rightarrow> ImportState" where
  "importGroup ids pf appTeams st g =
     (let best = findBest (claimedTeams st) g appTeams in
      if (case best of None \<Rightarrow> True | Some (bestMatch, bestResult) \<Rightarrow> score bestResult < MATCH_THRESHOLD)
      then
        st\<lparr> unmatchedTeams := unmatchedTeams st @
              [\<lparr> um_csvGroup = c_csvGroup g, um_csvTeam = c_csvTeam g,
                 um_rowCount = length (c_rows g),
                 um_reason = (case best of
                                None \<Rightarrow> NoCandidates
                              | Some (bestMatch, bestResult) \<Rightarrow>
                                  BestCandidate bestMatch (score bestResult)) \<rparr>],
            skippedRows := skippedRows st @
              map (\<lambda>row. \<lparr>sk_row = row, sk_reason = NoMatchingTeam (c_csvTeam g) (c_csvGroup g)\<rparr>)
                (c_rows g) \<rparr>
      else
        case the best of (bestMatch, bestResult) \<Rightarrow>
          (case importRows ids (c_rows g) (drawn st) of (newPersons, addedChanges, skipped, n') \<Rightarrow>
             let existing = (case findTeamInPortfolio pf (a_teamId bestMatch) of
                               None \<Rightarrow> [] | Some team \<Rightarrow> t_members team);
                 removedChanges = map removedChange (filter isEngineer existing);
                 keptMembers = filter (\<lambda>m. \<not> isEngineer m) existing
             in st\<lparr> claimedTeams := insert (a_teamId bestMatch) (claimedTeams st),
                    skippedRows := skippedRows st @ skipped,
                    teamChanges := teamChanges st @
                      [\<lparr> tc_match =
                           \<lparr> m_csvGroup = c_csvGroup g, m_csvTeam = c_csvTeam g,
                             m_appDivision = a_divisionName bestMatch,
                             m_appGroup = a_groupName bestMatch,
                             m_appTeam = a_teamName bestMatch,
                             m_matchReason = reason bestResult,
                             m_managerConfirmed = managerConfirmed bestResult \<rparr>,
                         tc_added = addedChanges, tc_removed = removedChanges \<rparr>],
                    replacements := replacements st @
                      [\<lparr> portfolioId = pf_id pf, divisionId = a_divisionId bestMatch,
                         groupId = a_groupId bestMatch, teamId = a_teamId bestMatch,
                         newMembers = keptMembers @ newPersons \<rparr>],
                    drawn := n' \<rparr>))"

definition initialImport :: ImportState where
  "initialImport =
     \<lparr> teamChanges = [], skippedRows = [], unmatchedTeams = [], replacements = [],
       claimedTeams = {}, drawn = 0 \<rparr>"

definition runImport :: "(nat \<Rightarrow> string) \<Rightarrow> string \<Rightarrow> Portfolio \<Rightarrow> ImportState" where
  "runImport ids csvText pf =
     foldl (importGroup ids pf (enumerateTeams pf)) initialImport (groupCsvRows (parseCsv csvText))"

definition analyseImport ::
  "(nat \<Rightarrow> string) \<Rightarrow> string \<Rightarrow> Portfolio \<Rightarrow> ImportReport \<times> TeamMemberReplacement list" where
  "analyseImport ids csvText pf =
     (let st = runImport ids csvText pf in
      (\<lparr> ir_teamChanges = teamChanges st,
         ir_skippedRows = skippedRows st,
         ir_unmatchedTeams = unmatchedTeams st,
         ir_summary =
           \<lparr> teamsMatched = length (teamChanges st),
             teamsUnmatched = length (unmatchedTeams st),
             membersAdded = foldl (\<lambda>sum tc. sum + length (tc_added tc)) 0 (teamChanges st),
             membersRemoved = foldl (\<lambda>sum tc. sum + length (tc_removed tc)) 0 (teamChanges st),
             rowsSkipped = length (skippedRows st) \<rparr> \<rparr>,
       replacements st))"

section \<open>The persons of a tree\<close>

text \<open>The invariant of the data model: an employee is onshore and has no vendor.\<close>

definition employeeInvariant :: "Person \<Rightarrow> bool" where
  "employeeInvariant p \<longleftrightarrow>
     (p_type p = employee \<longrightarrow> p_location p = Some onshore \<and> p_vendor p = None)"

definition optList :: "'a option \<Rightarrow> 'a list" where
  "optList x = (case x of None \<Rightarrow> [] | Some v \<Rightarrow> [v])"

definition groupPersons :: "Group \<Rightarrow> Person list" where
  "groupPersons grp =
     optList (g_manager grp) @ g_staffEngineers grp @ concat (map t_members (g_teams grp))"

definition divisionPersons :: "Division \<Rightarrow> Person list" where
  "divisionPersons dv = concat (map groupPersons (d_groups dv))"

definition updatePersons :: "PortfolioUpdate \<Rightarrow> Person list" where
  "updatePersons u =
     optList (u_headOfEngineering u) @ u_principalEngineers u @
     concat (map divisionPersons (case u_divisions u of None \<Rightarrow> [] | Some ds \<Rightarrow> ds)) @
     concat (map groupPersons (u_groups u))"

text \<open>The persons held anywhere in the state of the parser.\<close>

definition statePersons :: "PState \<Rightarrow> Person list" where
  "statePersons st =
     optList (headOfEngineering st) @ principalEngineers st @
     concat (map divisionPersons (divisions st)) @
     concat (map groupPersons (directGroups st)) @
     concat (map divisionPersons (optList (currentDivision st))) @
     concat (map groupPersons (optList (currentGroup st))) @
     concat (map t_members (optList (currentTeam st)))"

text \<open>The members of the teams of a portfolio.\<close>

definition portfolioTeams :: "Portfolio \<Rightarrow> Team list" where
  "portfolioTeams pf =
     concat (map (\<lambda>dv. concat (map g_teams (d_groups dv)))
               (case pf_divisions pf of None \<Rightarrow> [] | Some ds \<Rightarrow> ds)) @
     concat (map g_teams (pf_groups pf))"

section \<open>Auxiliary notions for the proofs\<close>

text \<open>The employee invariant on the properties of a bracket suffix and on a parsed person.\<close>

definition propsOK :: "props \<Rightarrow> bool" where
  "propsOK pr \<longleftrightarrow> (fst pr = employee \<longrightarrow> pr = (employee, onshore, None))"

definition specOK :: "PersonSpec \<Rightarrow> bool" where
  "specOK sp \<longleftrightarrow> (s_type sp = employee \<longrightarrow> s_location sp = onshore \<and> s_vendor sp = None)"

definition goodState :: "PState \<Rightarrow> bool" where
  "goodState st \<longleftrightarrow> (\<forall>p\<in>set (statePersons st). employeeInvariant p)"

text \<open>The rows that \<^verbatim>\<open>analyseImport\<close> turns into persons: those of the last branch of its loop.\<close>

definition importedRole :: "string \<Rightarrow> bool" where
  "importedRole csvRole \<longleftrightarrow>
     (case mapRole csvRole of
        None \<Rightarrow> False
      | Some r \<Rightarrow> r \<noteq> engineering_manager \<and> r \<noteq> staff_engineer \<and>
                  r \<noteq> principal_engineer \<and> r \<noteq> head_of_engineering)"

text \<open>
  A member of a replacement list is a new person that satisfies the invariant, or a
  member of a team of the portfolio that is no engineer and was kept.
\<close>

definition replacementOK :: "Portfolio \<Rightarrow> TeamMemberReplacement \<Rightarrow> bool" where
  "replacementOK pf r \<longleftrightarrow>
     (\<forall>p\<in>set (newMembers r). employeeInvariant p \<or>
        (\<exists>t\<in>set (portfolioTeams pf). p \<in> set (t_members t) \<and> \<not> isEngineer p))"

text \<open>
  The unnamed members of a team grouped by key, in the order in which the keys first
  occur: each group with its key, its first member and its size.
\<close>

function coalesceUnnamed :: "Person list \<Rightarrow> (string \<times> Person \<times> nat) list" where
  "coalesceUnnamed [] = []"
| "coalesceUnnamed (m # ms) =
     (groupingKey m, m, 1 + length (filter (\<lambda>x. groupingKey x = groupingKey m) ms)) #
     coalesceUnnamed (filter (\<lambda>x. groupingKey x \<noteq> groupingKey m) ms)"
  by pat_completeness auto
termination
  by (relation "measure length") (auto simp: less_Suc_eq_le)

text \<open>The \<^verbatim>\<open>else\<close> branch of the first loop of \<^verbatim>\<open>formatTeamMembers\<close> as a step of a fold.\<close>

definition unnamedStep :: "(string \<times> Person \<times> nat) list \<Rightarrow> Person \<Rightarrow> (string \<times> Person \<times> nat) list" where
  "unnamedStep acc m = countUnnamed (groupingKey m) m acc"

text \<open>The state of \<^verbatim>\<open>analyseImport\<close> after its outer loop has treated the first \<open>i\<close> groups.\<close>

definition importPrefix :: "(nat \<Rightarrow> string) \<Rightarrow> string \<Rightarrow> Portfolio \<Rightarrow> nat \<Rightarrow> ImportState" where
  "importPrefix ids csvText pf i =
     foldl (importGroup ids pf (enumerateTeams pf)) initialImport
       (take i (groupCsvRows (parseCsv csvText)))"

text \<open>
  Two replacement plans are compared up to the identifiers that the run has drawn. The
  persons that the import constructs are engineers and senior engineers, and the members
  that it keeps are of other roles: \<open>forgetNewIds\<close> blanks the identifier of the former
  and leaves the latter as they are.
\<close>

definition forgetNewIds :: "Person \<Rightarrow> Person" where
  "forgetNewIds p = (if isEngineer p then p\<lparr>p_id := []\<rparr> else p)"

definition forgetIds :: "TeamMemberReplacement \<Rightarrow> TeamMemberReplacement" where
  "forgetIds r = r\<lparr>newMembers := map forgetNewIds (newMembers r)\<rparr>"

definition sameUpToIds :: "ImportState \<Rightarrow> ImportState \<Rightarrow> bool" where
  "sameUpToIds st st' \<longleftrightarrow>
     teamChanges st = teamChanges st' \<and> skippedRows st = skippedRows st' \<and>
     unmatchedTeams st = unmatchedTeams st' \<and> claimedTeams st = claimedTeams st' \<and>
     map forgetIds (replacements st) = map forgetIds (replacements st')"

text \<open>
  A portfolio with two teams and an extract with three team-groups, for the examples:
  the first group matches the team ``Core''; the second would match it best as well and
  finds it claimed; the third resembles nothing.
\<close>

definition examplePortfolio :: Portfolio where
  "examplePortfolio =
     \<lparr> pf_id = ''pf'', pf_name = ''Acme'', pf_headOfEngineering = None,
       pf_principalEngineers = [], pf_divisions = None,
       pf_groups =
         [\<lparr> g_id = ''g1'', g_name = ''Platform'', g_manager = None, g_managedBy = None,
            g_staffEngineers = [],
            g_teams = [\<lparr>t_id = ''t1'', t_name = ''Core'', t_members = []\<rparr>,
                       \<lparr>t_id = ''t2'', t_name = ''Payments'', t_members = []\<rparr>] \<rparr>],
       pf_onshoreTargetPercentage = None \<rparr>"

definition exampleCsv :: string where
  "exampleCsv =
     ''Acme,Platform,Core,Engineer,Offshore,TCS,Al Xu'' @ [CHR 0x0A] @
     ''Acme,Platform,Core Team,Engineer,Offshore,TCS,Bo Li'' @ [CHR 0x0A] @
     ''Acme,Zzz,Qqq,Engineer,Offshore,TCS,Cy Wu''"



text \<open>
  The forms of two names that the claim on \<^verbatim>\<open>namesMatch\<close> compares, in the words of the
  specification: the honorific prefix stripped, white space collapsed, lower case. An
  honorific is a word at the very start of the name: it ends at a full stop, at white
  space or at the end of the name, and goes with its full stop and the white space
  after it.
\<close>

definition wordEnd :: "string \<Rightarrow> bool" where
  "wordEnd r \<longleftrightarrow> (case r of [] \<Rightarrow> True | c # _ \<Rightarrow> c = CHR ''.'' \<or> isSpace c)"

definition honorificOf :: "string \<Rightarrow> string option" where
  "honorificOf nm = find (\<lambda>h. startsWithCI nm h \<and> wordEnd (drop (length h) nm)) honorifics"

definition withoutHonorific :: "string \<Rightarrow> string" where
  "withoutHonorific nm =
     (case honorificOf nm of
        None \<Rightarrow> nm
      | Some h \<Rightarrow>
          dropWhile isSpace
            (case drop (length h) nm of [] \<Rightarrow> [] | c # cs \<Rightarrow> if c = CHR ''.'' then cs else c # cs))"

definition nameForm :: "string \<Rightarrow> string" where
  "nameForm nm = toLowerCase (trim (collapseWs (withoutHonorific nm)))"

text \<open>
  The pattern of \<^verbatim>\<open>normaliseName\<close> removes the first of its alternatives that matches at
  the start of the name, whatever follows: \<^verbatim>\<open>mr\<close> from ``Mrs. Smith'' and from ``Mrinal''.
  \<open>wholeHonorific\<close> holds of the names from which it removes nothing or a whole word.
\<close>

definition wholeHonorific :: "string \<Rightarrow> bool" where
  "wholeHonorific nm \<longleftrightarrow>
     (case find (\<lambda>h. startsWithCI nm h) honorifics of
        None \<Rightarrow> True
      | Some h \<Rightarrow> wordEnd (drop (length h) nm))"

text \<open>
  The combination by which the unnamed members of a team are grouped: role, type,
  location (onshore where none is recorded) and vendor (empty where none is recorded).
  \<open>firstOfKind\<close> keeps the members that are the first of their combination, in their
  order, and \<open>kindCount\<close> counts the members that share the combination of a member.
\<close>

definition memberKind :: "Person \<Rightarrow> Role \<times> EmployeeType \<times> Location \<times> string" where
  "memberKind m =
     (p_role m, p_type m,
      (case p_location m of None \<Rightarrow> onshore | Some l \<Rightarrow> l),
      (case p_vendor m of None \<Rightarrow> [] | Some v \<Rightarrow> v))"

function firstOfKind :: "Person list \<Rightarrow> Person list" where
  "firstOfKind [] = []"
| "firstOfKind (m # ms) = m # firstOfKind (filter (\<lambda>x. memberKind x \<noteq> memberKind m) ms)"
  by pat_completeness auto
termination
  by (relation "measure length") (auto simp: less_Suc_eq_le)

definition kindCount :: "Person list \<Rightarrow> Person \<Rightarrow> nat" where
  "kindCount ms m = length (filter (\<lambda>x. memberKind x = memberKind m) ms)"

text \<open>A team whose named and unnamed members alternate, in a group of a portfolio.\<close>

definition mixedTeam :: Team where
  "mixedTeam =
     \<lparr> t_id = ''t1'', t_name = ''Core'',
       t_members =
         [\<lparr> p_id = ''p1'', p_name = Some ''Al Xu'', p_role = engineer, p_type = employee,
             p_vendor = None, p_location = Some onshore \<rparr>,
          \<lparr> p_id = ''p2'', p_name = None, p_role = engineer, p_type = contractor,
             p_vendor = Some ''TCS'', p_location = Some offshore \<rparr>,
          \<lparr> p_id = ''p3'', p_name = None, p_role = senior_engineer, p_type = employee,
             p_vendor = None, p_location = None \<rparr>,
          \<lparr> p_id = ''p4'', p_name = Some ''Bo Li'', p_role = senior_engineer, p_type = contractor,
             p_vendor = Some ''Infosys'', p_location = Some nearshore \<rparr>,
          \<lparr> p_id = ''p5'', p_name = None, p_role = engineer, p_type = contractor,
             p_vendor = Some ''TCS'', p_location = Some offshore \<rparr>] \<rparr>"

definition mixedPortfolio :: Portfolio where
  "mixedPortfolio =
     \<lparr> pf_id = ''pf'', pf_name = ''Acme'', pf_headOfEngineering = None,
       pf_principalEngineers = [], pf_divisions = None,
       pf_groups =
         [\<lparr> g_id = ''g1'', g_name = ''Platform'', g_manager = None, g_managedBy = None,
            g_staffEngineers = [], g_teams = [mixedTeam] \<rparr>],
       pf_onshoreTargetPercentage = None \<rparr>"

section \<open>Properties of the CSV parser\<close>

lemma parseCsvLine_lineNumber: "parseCsvLine i l = Some r \<Longrightarrow> lineNumber r = i + 1"
  by (auto simp: parseCsvLine_def Let_def split: if_splits)

lemma parseCsvLoop_lineNumber_gt: "r \<in> set (parseCsvLoop ls k) \<Longrightarrow> k < lineNumber r"
proof (induction ls arbitrary: k)
  case Nil
  then show ?case by simp
next
  case (Cons l ls)
  show ?case
  proof (cases "parseCsvLine k l")
    case None
    with Cons.prems have "r \<in> set (parseCsvLoop ls (k + 1))" by simp
    from Cons.IH [OF this] show ?thesis by simp
  next
    case (Some r0)
    with Cons.prems have "r = r0 \<or> r \<in> set (parseCsvLoop ls (k + 1))" by auto
    then show ?thesis
    proof
      assume "r = r0"
      with Some show ?thesis by (simp add: parseCsvLine_lineNumber)
    next
      assume "r \<in> set (parseCsvLoop ls (k + 1))"
      from Cons.IH [OF this] show ?thesis by simp
    qed
  qed
qed

lemma parseCsvLoop_above:
  "filter (\<lambda>r. lineNumber r = k) (parseCsvLoop ls k) = []"
  using parseCsvLoop_lineNumber_gt [of _ ls k] by (auto simp: filter_empty_conv)

lemma parseCsvLoop_filter:
  "i < length ls \<Longrightarrow>
   filter (\<lambda>r. lineNumber r = k + i + 1) (parseCsvLoop ls k) =
     (case parseCsvLine (k + i) (ls ! i) of None \<Rightarrow> [] | Some r \<Rightarrow> [r])"
proof (induction ls arbitrary: k i)
  case Nil
  then show ?case by simp
next
  case (Cons l ls)
  show ?case
  proof (cases i)
    case 0
    have "filter (\<lambda>r. lineNumber r = k + 1) (parseCsvLoop ls (k + 1)) = []"
      by (rule parseCsvLoop_above)
    with 0 show ?thesis
      by (auto simp: parseCsvLine_lineNumber split: option.splits)
  next
    case (Suc j)
    with Cons.prems have j: "j < length ls" by simp
    have head: "parseCsvLine k l = Some r0 \<Longrightarrow> lineNumber r0 \<noteq> k + i + 1" for r0
      using Suc by (auto dest: parseCsvLine_lineNumber)
    from Cons.IH [OF j, of "k + 1"] Suc head show ?thesis
      by (auto split: option.splits)
  qed
qed

lemma parseCsvLoop_set:
  "r \<in> set (parseCsvLoop ls k) \<longleftrightarrow> (\<exists>i<length ls. parseCsvLine (k + i) (ls ! i) = Some r)"
proof (induction ls arbitrary: k)
  case Nil
  then show ?case by simp
next
  case (Cons l ls)
  have "(\<exists>i<length (l # ls). parseCsvLine (k + i) ((l # ls) ! i) = Some r) \<longleftrightarrow>
        parseCsvLine k l = Some r \<or> (\<exists>j<length ls. parseCsvLine (k + 1 + j) (ls ! j) = Some r)"
    by (auto simp: less_Suc_eq_0_disj)
  with Cons.IH [of "k + 1"] show ?case
    by (auto split: option.splits)
qed

lemma take_drop_nths:
  "6 \<le> length xs \<Longrightarrow> take (length xs - 4 - 2) (drop 2 xs) = map ((!) xs) [2..<length xs - 4]"
  by (rule nth_equalityI) (simp_all del: upt_Suc)

lemma parseCsvLoop_sorted: "sorted_wrt (<) (map lineNumber (parseCsvLoop ls k))"
proof (induction ls arbitrary: k)
  case Nil
  then show ?case by simp
next
  case (Cons l ls)
  have "\<forall>r\<in>set (parseCsvLoop ls (k + 1)). k + 1 < lineNumber r"
    using parseCsvLoop_lineNumber_gt by blast
  with Cons [of "k + 1"] show ?case
    by (auto split: option.splits dest: parseCsvLine_lineNumber)
qed

text \<open>
  Claim C8 (as amended). Let the non-blank lines of the trimmed text be numbered from 0.
  For the line at index \<open>i\<close>, split at commas after trimming: with at least 7 fields,
  \<open>parseCsv\<close> returns exactly one row numbered \<open>i + 1\<close>, whose portfolio and group are the
  first two fields, whose role, location, vendor and name are the last four, and whose
  team name is the fields in between rejoined with commas, each of these seven values
  trimmed of surrounding white space; with fewer than 7 fields it returns no row for the
  line. \<open>parseCsv\<close> returns rows only: there is no diagnostic to produce.
\<close>

theorem parseCsv_fixed_ends:
  fixes csvText :: string and i :: nat
  defines "ls \<equiv> filter (\<lambda>line. trim line \<noteq> []) (splitOn CHR 0x0A (trim csvText))"
  defines "parts \<equiv> splitOn CHR '','' (trim (ls ! i))"
  assumes "i < length ls"
  shows "filter (\<lambda>r. lineNumber r = i + 1) (parseCsv csvText) =
     (if 7 \<le> length parts then
        [\<lparr> portfolio = trim (parts ! 0),
           csvGroup = trim (parts ! 1),
           teamName = trim (joinWith '','' (map ((!) parts) [2..<length parts - 4])),
           role = trim (parts ! (length parts - 4)),
           location = trim (parts ! (length parts - 3)),
           vendor = trim (parts ! (length parts - 2)),
           name = trim (parts ! (length parts - 1)),
           lineNumber = i + 1 \<rparr>]
      else [])"
proof -
  have ls: "ls = csvLines csvText" by (simp add: ls_def csvLines_def)
  from assms(3) have "ls ! i \<in> set ls" by simp
  then have nb: "trim (ls ! i) \<noteq> []" by (simp add: ls_def)
  have "filter (\<lambda>r. lineNumber r = i + 1) (parseCsv csvText) =
      (case parseCsvLine i (ls ! i) of None \<Rightarrow> [] | Some r \<Rightarrow> [r])"
    using parseCsvLoop_filter [OF assms(3), of 0] by (simp add: parseCsv_def ls)
  also have "\<dots> = (if 7 \<le> length parts then
        [\<lparr> portfolio = trim (parts ! 0),
           csvGroup = trim (parts ! 1),
           teamName = trim (joinWith '','' (map ((!) parts) [2..<length parts - 4])),
           role = trim (parts ! (length parts - 4)),
           location = trim (parts ! (length parts - 3)),
           vendor = trim (parts ! (length parts - 2)),
           name = trim (parts ! (length parts - 1)),
           lineNumber = i + 1 \<rparr>]
      else [])"
    using nb take_drop_nths [of parts]
    by (simp add: parseCsvLine_def Let_def parts_def [symmetric] not_less)
  finally show ?thesis .
qed

theorem parseCsv_fixed_ends_witness:
  "filter (\<lambda>r. lineNumber r = 1) (parseCsv ''Acme, Platform Eng, Inbound, Tax & Control, Engineer, Offshore, TCS, John Smith'') =
     [\<lparr> portfolio = ''Acme'', csvGroup = ''Platform Eng'', teamName = ''Inbound, Tax & Control'',
        role = ''Engineer'', location = ''Offshore'', vendor = ''TCS'', name = ''John Smith'',
        lineNumber = 1 \<rparr>]"
  using parseCsv_fixed_ends [of 0 "''Acme, Platform Eng, Inbound, Tax & Control, Engineer, Offshore, TCS, John Smith''"]
  by code_simp

text \<open>
  The claim as first stated takes the fields as they stand between the commas. The second
  field of the line below is `` g'', with its leading space; the row carries ``g''.
\<close>

theorem parseCsv_untrimmed_counterexample:
  "splitOn CHR '','' ''p, g,t,r,l,v,n'' ! 1 = '' g'' \<and>
   map csvGroup (parseCsv ''p, g,t,r,l,v,n'') = [''g'']"
  by code_simp

text \<open>
  Claim C10. A row is returned exactly for a non-blank line of the trimmed text that
  parses, and its \<open>lineNumber\<close> is the 1-based position of that line among the non-blank
  lines; the rows come in increasing line number. Blank lines do not count: in the text
  of the last conjunct the second row stands on the third line and is numbered 2.
\<close>

theorem parseCsv_lineNumber:
  fixes csvText :: string
  defines "ls \<equiv> filter (\<lambda>line. trim line \<noteq> []) (splitOn CHR 0x0A (trim csvText))"
  shows "(r \<in> set (parseCsv csvText) \<longleftrightarrow>
            (\<exists>i<length ls. lineNumber r = i + 1 \<and> parseCsvLine i (ls ! i) = Some r)) \<and>
         sorted_wrt (<) (map lineNumber (parseCsv csvText)) \<and>
         splitOn CHR 0x0A (''a,b,c,d,e,f,g'' @ [CHR 0x0A, CHR 0x0A] @ ''h,i,j,k,l,m,n'') ! 2 =
            ''h,i,j,k,l,m,n'' \<and>
         map lineNumber
            (parseCsv (''a,b,c,d,e,f,g'' @ [CHR 0x0A, CHR 0x0A] @ ''h,i,j,k,l,m,n'')) = [1, 2]"
proof -
  have ls: "ls = csvLines csvText" by (simp add: ls_def csvLines_def)
  have "r \<in> set (parseCsv csvText) \<longleftrightarrow>
      (\<exists>i<length ls. lineNumber r = i + 1 \<and> parseCsvLine i (ls ! i) = Some r)"
    using parseCsvLoop_set [of r ls 0] parseCsvLine_lineNumber
    by (auto simp: parseCsv_def ls)
  moreover have "sorted_wrt (<) (map lineNumber (parseCsv csvText))"
    by (simp add: parseCsv_def parseCsvLoop_sorted)
  moreover have "splitOn CHR 0x0A (''a,b,c,d,e,f,g'' @ [CHR 0x0A, CHR 0x0A] @ ''h,i,j,k,l,m,n'') ! 2 =
            ''h,i,j,k,l,m,n''"
    by code_simp
  moreover have "map lineNumber
            (parseCsv (''a,b,c,d,e,f,g'' @ [CHR 0x0A, CHR 0x0A] @ ''h,i,j,k,l,m,n'')) = [1, 2]"
    by code_simp
  ultimately show ?thesis by blast
qed

section \<open>Properties of name matching\<close>

lemma char_eq_code: "c = d \<longleftrightarrow> (of_char c :: nat) = of_char d"
  by simp

lemma isSpace_code:
  "isSpace c \<longleftrightarrow> (of_char c :: nat) \<in> {9, 10, 11, 12, 13, 32, 160}"
  unfolding isSpace_def
  by (simp add: char_eq_code [of c])

lemma isSpace_lowerChar [simp]: "isSpace (lowerChar c) = isSpace c"
proof (cases "(65 \<le> (of_char c :: nat) \<and> (of_char c :: nat) \<le> 90) \<or>
    (192 \<le> (of_char c :: nat) \<and> (of_char c :: nat) \<le> 222 \<and> (of_char c :: nat) \<noteq> 215)")
  case True
  then have l: "lowerChar c = char_of ((of_char c :: nat) + 32)"
    by (simp add: lowerChar_def)
  from True have "((of_char c :: nat) + 32) mod 256 = of_char c + 32"
    by auto
  then have "(of_char (lowerChar c) :: nat) = of_char c + 32"
    by (simp add: l of_char_of)
  with True show ?thesis
    unfolding isSpace_code by auto
next
  case False
  then show ?thesis by (auto simp: lowerChar_def Let_def)
qed


lemma trim_rtrim: "trim s = rtrim (dropWhile isSpace s)"
  by (simp add: trim_def rtrim_def)

lemma rtrim_Nil_iff: "rtrim s = [] \<longleftrightarrow> (\<forall>c\<in>set s. isSpace c)"
  by (auto simp: rtrim_def dropWhile_eq_Nil_conv)

lemma rtrim_append:
  "rtrim (u @ v) = (if rtrim v = [] then rtrim u else u @ rtrim v)"
  by (auto simp: rtrim_def dropWhile_append dropWhile_eq_Nil_conv)

lemma rtrim_id: "s \<noteq> [] \<Longrightarrow> \<not> isSpace (last s) \<Longrightarrow> rtrim s = s"
  by (cases s rule: rev_cases) (auto simp: rtrim_def)

lemma collapseWs_token:
  "\<forall>c\<in>set t. \<not> isSpace c \<Longrightarrow> collapseWs (t @ r) = t @ collapseWs r"
  by (induction t) auto

lemma wsTokens_nonempty: "t \<in> set (wsTokens s) \<Longrightarrow> t \<noteq> [] \<and> (\<forall>c\<in>set t. \<not> isSpace c)"
proof (induction s rule: wsTokens.induct)
  case 1
  then show ?case by simp
next
  case (2 c cs)
  show ?case
  proof (cases "isSpace c")
    case True
    with 2 show ?thesis by simp
  next
    case False
    with "2.prems" have "t = c # takeWhile (\<lambda>x. \<not> isSpace x) cs \<or>
        t \<in> set (wsTokens (dropWhile (\<lambda>x. \<not> isSpace x) cs))"
      by simp
    then show ?thesis
    proof
      assume "t = c # takeWhile (\<lambda>x. \<not> isSpace x) cs"
      with False show ?thesis by (auto dest: set_takeWhileD)
    next
      assume "t \<in> set (wsTokens (dropWhile (\<lambda>x. \<not> isSpace x) cs))"
      with "2.IH"(2) False show ?thesis by blast
    qed
  qed
qed

lemma wsTokens_dropWhile: "wsTokens (dropWhile isSpace s) = wsTokens s"
  by (induction s) auto

lemma joinWith_Cons:
  "joinWith sep (t # ts) = (if ts = [] then t else t @ sep @ joinWith sep ts)"
  by (cases ts) auto

lemma joinWith_tokens_nonempty:
  "ts \<noteq> [] \<Longrightarrow> \<forall>t\<in>set ts. t \<noteq> [] \<Longrightarrow> joinWith sep ts \<noteq> []"
  by (cases ts) (auto simp: joinWith_Cons)

lemma rtrim_collapseWs:
  "s = [] \<or> \<not> isSpace (hd s) \<Longrightarrow> rtrim (collapseWs s) = joinWith '' '' (wsTokens s)"
proof (induction s rule: length_induct)
  case (1 s)
  show ?case
  proof (cases s)
    case Nil
    then show ?thesis by (simp add: rtrim_def)
  next
    case (Cons c cs)
    with "1.prems" have c: "\<not> isSpace c" by simp
    define t where "t = c # takeWhile (\<lambda>x. \<not> isSpace x) cs"
    define r where "r = dropWhile (\<lambda>x. \<not> isSpace x) cs"
    have s: "s = t @ r" by (simp add: Cons t_def r_def)
    have t: "\<forall>x\<in>set t. \<not> isSpace x" "t \<noteq> []"
      using c by (auto simp: t_def dest: set_takeWhileD)
    then have lt: "\<not> isSpace (last t)" by (meson last_in_set)
    have toks: "wsTokens s = t # wsTokens r"
      using c by (simp add: Cons t_def r_def)
    have col: "collapseWs s = t @ collapseWs r"
      unfolding s using t(1) by (rule collapseWs_token)
    show ?thesis
    proof (cases r)
      case Nil
      with toks col t lt show ?thesis by (simp add: rtrim_id)
    next
      case (Cons w r')
      have w: "isSpace w"
        using Cons hd_dropWhile [of "\<lambda>x. \<not> isSpace x" cs] by (auto simp: r_def)
      define y where "y = dropWhile isSpace r'"
      have ylen: "length y < length s"
        using length_dropWhile_le [of isSpace r'] by (simp add: y_def s Cons)
      have yhd: "y = [] \<or> \<not> isSpace (hd y)"
        using hd_dropWhile [of isSpace r'] by (auto simp: y_def)
      from "1.IH" ylen yhd have IH: "rtrim (collapseWs y) = joinWith '' '' (wsTokens y)"
        by blast
      have colr: "collapseWs r = CHR '' '' # collapseWs y"
        using w by (simp add: Cons y_def)
      have toksr: "wsTokens r = wsTokens y"
        using w by (simp add: Cons y_def wsTokens_dropWhile)
      have "isSpace CHR '' ''" by (simp add: isSpace_def)
      then have sp: "rtrim [CHR '' ''] = []" by (simp add: rtrim_def)
      have r1: "rtrim (CHR '' '' # collapseWs y) =
                  (if rtrim (collapseWs y) = [] then [] else CHR '' '' # rtrim (collapseWs y))"
        using rtrim_append [of "[CHR '' '']" "collapseWs y"] sp by simp
      show ?thesis
      proof (cases "wsTokens y")
        case Nil
        with IH have "rtrim (collapseWs y) = []" by simp
        with r1 col colr toks toksr Nil t lt show ?thesis
          by (simp add: rtrim_append rtrim_id)
      next
        case (Cons z zs)
        have "\<forall>u\<in>set (wsTokens y). u \<noteq> []" using wsTokens_nonempty by blast
        with Cons have "joinWith '' '' (wsTokens y) \<noteq> []"
          by (intro joinWith_tokens_nonempty) auto
        with IH have ne: "rtrim (collapseWs y) \<noteq> []" by simp
        with r1 col colr toks toksr Cons IH show ?thesis
          by (simp add: rtrim_append)
      qed
    qed
  qed
qed

lemma dropWhile_collapseWs:
  "dropWhile isSpace (collapseWs s) = collapseWs (dropWhile isSpace s)"
proof (cases s)
  case Nil
  then show ?thesis by simp
next
  case (Cons c cs)
  define y where "y = dropWhile isSpace cs"
  have yhd: "y = [] \<or> \<not> isSpace (hd y)"
    using hd_dropWhile [of isSpace cs] by (auto simp: y_def)
  then have "dropWhile isSpace (collapseWs y) = collapseWs y"
    by (cases y) auto
  moreover have "isSpace CHR '' ''" by (simp add: isSpace_def)
  ultimately show ?thesis
    by (simp add: Cons y_def)
qed

lemma trim_collapseWs: "trim (collapseWs s) = joinWith '' '' (wsTokens s)"
proof -
  have "dropWhile isSpace s = [] \<or> \<not> isSpace (hd (dropWhile isSpace s))"
    using hd_dropWhile [of isSpace s] by auto
  from rtrim_collapseWs [OF this] show ?thesis
    by (simp add: trim_rtrim dropWhile_collapseWs wsTokens_dropWhile)
qed


lemma splitOn_notin: "d \<notin> set a \<Longrightarrow> splitOn d a = [a]"
  by (induction a) auto

lemma splitOn_append: "d \<notin> set a \<Longrightarrow> splitOn d (a @ d # b) = a # splitOn d b"
  by (induction a) auto

lemma splitOn_joinWith:
  "ts \<noteq> [] \<Longrightarrow> \<forall>t\<in>set ts. d \<notin> set t \<Longrightarrow> splitOn d (joinWith [d] ts) = ts"
proof (induction ts)
  case Nil
  then show ?case by simp
next
  case (Cons t ts)
  show ?case
  proof (cases ts)
    case Nil
    with Cons.prems show ?thesis by (simp add: splitOn_notin)
  next
    case (Cons u us)
    with Cons.prems Cons.IH show ?thesis
      by (simp add: splitOn_append)
  qed
qed

lemma wsTokens_token:
  assumes "t \<noteq> []" "\<forall>c\<in>set t. \<not> isSpace c" "r = [] \<or> isSpace (hd r)"
  shows "wsTokens (t @ r) = t # wsTokens r"
proof -
  from assms(1) obtain c cs where t: "t = c # cs" by (cases t) auto
  with assms(2) have c: "\<not> isSpace c" and cs: "\<forall>x\<in>set cs. \<not> isSpace x" by auto
  from assms(3) have r: "takeWhile (\<lambda>x. \<not> isSpace x) r = []" by (cases r) auto
  from assms(3) have r': "dropWhile (\<lambda>x. \<not> isSpace x) r = r" by (cases r) auto
  from cs have "takeWhile (\<lambda>x. \<not> isSpace x) (cs @ r) = cs"
    by (simp add: takeWhile_append2 r)
  moreover from cs have "dropWhile (\<lambda>x. \<not> isSpace x) (cs @ r) = r"
    by (simp add: dropWhile_append2 r')
  ultimately show ?thesis using c by (simp add: t)
qed

lemma wsTokens_joinWith:
  "\<forall>t\<in>set ts. t \<noteq> [] \<and> (\<forall>c\<in>set t. \<not> isSpace c) \<Longrightarrow> wsTokens (joinWith '' '' ts) = ts"
proof (induction ts)
  case Nil
  then show ?case by simp
next
  case (Cons t ts)
  have sp: "isSpace CHR '' ''" by (simp add: isSpace_def)
  show ?case
  proof (cases ts)
    case Nil
    with Cons.prems wsTokens_token [of t "[]"] show ?thesis by simp
  next
    case (Cons u us)
    from Cons.prems have "wsTokens (t @ CHR '' '' # joinWith '' '' ts) =
        t # wsTokens (CHR '' '' # joinWith '' '' ts)"
      by (intro wsTokens_token) (auto simp: sp)
    with Cons.prems Cons.IH Cons sp show ?thesis by simp
  qed
qed

lemma toLowerCase_joinWith:
  "toLowerCase (joinWith '' '' ts) = joinWith '' '' (map toLowerCase ts)"
proof (induction ts)
  case Nil
  then show ?case by (simp add: toLowerCase_def)
next
  case (Cons t ts)
  have "lowerChar CHR '' '' = CHR '' ''" by (simp add: lowerChar_def)
  with Cons show ?case
    by (simp add: joinWith_Cons toLowerCase_def)
qed

text \<open>After normalisation and lower-casing, a name is its tokens joined by single spaces.\<close>

lemma normalised_tokens:
  fixes nm :: string
  defines "a \<equiv> toLowerCase (normaliseName nm)"
  shows "a = joinWith '' '' (wsTokens a)"
    and "a \<noteq> [] \<Longrightarrow> splitOn CHR '' '' a = wsTokens a"
    and "a \<noteq> [] \<Longrightarrow> wsTokens a \<noteq> []"
proof -
  define ts where "ts = map toLowerCase (wsTokens (stripHonorific honorifics nm))"
  have a: "a = joinWith '' '' ts"
    by (simp add: a_def normaliseName_def trim_collapseWs toLowerCase_joinWith ts_def)
  have tok: "\<forall>t\<in>set ts. t \<noteq> [] \<and> (\<forall>c\<in>set t. \<not> isSpace c)"
    using wsTokens_nonempty by (fastforce simp: ts_def toLowerCase_def)
  then have w: "wsTokens a = ts" unfolding a by (rule wsTokens_joinWith)
  show "a = joinWith '' '' (wsTokens a)" using a w by simp
  have sp: "isSpace CHR '' ''" by (simp add: isSpace_def)
  show "wsTokens a \<noteq> []" if "a \<noteq> []" using that a w by auto
  show "splitOn CHR '' '' a = wsTokens a" if "a \<noteq> []"
  proof -
    from that a have "ts \<noteq> []" by auto
    moreover from tok sp have "\<forall>t\<in>set ts. CHR '' '' \<notin> set t" by blast
    ultimately have "splitOn CHR '' '' (joinWith [CHR '' ''] ts) = ts"
      by (rule splitOn_joinWith)
    with a w show ?thesis by simp
  qed
qed

lemma includesStr_Nil [simp]: "includesStr a []"
  by (induction a) auto


lemma namesMatch_fallback_forms:
  fixes csvName appName :: string
  defines "a \<equiv> toLowerCase (normaliseName csvName)"
    and "b \<equiv> toLowerCase (normaliseName appName)"
  assumes "a \<noteq> b" and "\<not> includesStr a b" and "\<not> includesStr b a"
  shows "namesMatch csvName (Some appName) \<longleftrightarrow>
           last (wsTokens a) = last (wsTokens b) \<and> 2 < length (last (wsTokens a)) \<and>
           charAt0 (hd (wsTokens a)) = charAt0 (hd (wsTokens b))"
proof -
  from assms(4,5) have ne: "a \<noteq> []" "b \<noteq> []" by auto
  have "appName \<noteq> []"
  proof
    assume "appName = []"
    then have "b = []"
      by (simp add: b_def normaliseName_def honorifics_def startsWithCI_def trim_def toLowerCase_def)
    with ne show False by simp
  qed
  moreover have "splitOn CHR '' '' a = wsTokens a" "wsTokens a \<noteq> []"
    using ne(1) normalised_tokens(2,3) [of csvName] by (simp_all add: a_def)
  moreover have "splitOn CHR '' '' b = wsTokens b" "wsTokens b \<noteq> []"
    using ne(2) normalised_tokens(2,3) [of appName] by (simp_all add: b_def)
  ultimately show ?thesis
    using assms(3,4,5)
    by (auto simp: namesMatch_def Let_def lastToken_def firstToken_def a_def [symmetric]
        b_def [symmetric] split: list.splits)
qed

lemma stripHonorific_whole:
  "(case find (\<lambda>h. startsWithCI nm h) hs of
      None \<Rightarrow> True
    | Some h \<Rightarrow> wordEnd (drop (length h) nm)) \<Longrightarrow>
   stripHonorific hs nm =
     (case find (\<lambda>h. startsWithCI nm h \<and> wordEnd (drop (length h) nm)) hs of
        None \<Rightarrow> nm
      | Some h \<Rightarrow>
          dropWhile isSpace
            (case drop (length h) nm of [] \<Rightarrow> [] | c # cs \<Rightarrow> if c = CHR ''.'' then cs else c # cs))"
  by (induction hs) (auto simp: Let_def split: list.splits)

lemma normaliseName_nameForm:
  "wholeHonorific nm \<Longrightarrow> toLowerCase (normaliseName nm) = nameForm nm"
  using stripHonorific_whole [of nm honorifics]
  by (simp add: wholeHonorific_def normaliseName_def nameForm_def withoutHonorific_def honorificOf_def)

text \<open>
  Claim C7 (as amended). Take two names from which \<^verbatim>\<open>normaliseName\<close> removes nothing or a
  whole honorific, and their forms: the honorific at the very start stripped with its
  full stop and the white space after it, white space collapsed and trimmed, lower case.
  If the forms are neither equal nor contained one in the other, \<open>namesMatch\<close> answers
  true exactly when the last white-space-delimited tokens of the two forms are equal,
  that token is longer than two characters, and the first tokens begin with the same
  character. Nothing is said of the names in which an honorific of the pattern runs on
  into further characters, such as ``Mrs. Smith'', from which the pattern takes \<^verbatim>\<open>Mr\<close>.
\<close>

theorem namesMatch_surname_fallback:
  fixes csvName appName :: string
  defines "a \<equiv> nameForm csvName"
    and "b \<equiv> nameForm appName"
  assumes "wholeHonorific csvName" and "wholeHonorific appName"
    and "a \<noteq> b" and "\<not> includesStr a b" and "\<not> includesStr b a"
  shows "namesMatch csvName (Some appName) \<longleftrightarrow>
           last (wsTokens a) = last (wsTokens b) \<and> 2 < length (last (wsTokens a)) \<and>
           charAt0 (hd (wsTokens a)) = charAt0 (hd (wsTokens b))"
proof -
  have fa: "toLowerCase (normaliseName csvName) = a"
    unfolding a_def using assms(3) by (rule normaliseName_nameForm)
  have fb: "toLowerCase (normaliseName appName) = b"
    unfolding b_def using assms(4) by (rule normaliseName_nameForm)
  show ?thesis
    using namesMatch_fallback_forms [of csvName appName, unfolded fa fb] assms(5,6,7) by blast
qed

theorem namesMatch_surname_fallback_witness:
  "wholeHonorific ''Mr. J. Smith'' \<and> wholeHonorific ''John Smith'' \<and>
   nameForm ''Mr. J. Smith'' = ''j. smith'' \<and> nameForm ''John Smith'' = ''john smith'' \<and>
   \<not> includesStr (nameForm ''Mr. J. Smith'') (nameForm ''John Smith'') \<and>
   \<not> includesStr (nameForm ''John Smith'') (nameForm ''Mr. J. Smith'') \<and>
   namesMatch ''Mr. J. Smith'' (Some ''John Smith'') \<and>
   last (wsTokens (nameForm ''Mr. J. Smith'')) = ''smith''"
  using namesMatch_surname_fallback [of "''Mr. J. Smith''" "''John Smith''"]
  by code_simp

text \<open>
  What the amended claim leaves out: the pattern takes \<^verbatim>\<open>Mr\<close> from ``Mrs. J. Smith'',
  and the rest of the honorific stays in the name.
\<close>

lemma normaliseName_partial_honorific:
  "\<not> wholeHonorific ''Mrs. J. Smith'' \<and> normaliseName ''Mrs. J. Smith'' = ''s. J. Smith'' \<and>
   nameForm ''Mrs. J. Smith'' = ''j. smith''"
  by code_simp

text \<open>
  The claim as first stated, without the length guard, fails for a two-letter surname:
  ``Al Xu'' and ``Amy Xu'' share the last token and the first initial, and do not match.
\<close>

theorem namesMatch_short_surname_counterexample:
  "toLowerCase (normaliseName ''Al Xu'') \<noteq> toLowerCase (normaliseName ''Amy Xu'') \<and>
   \<not> includesStr (toLowerCase (normaliseName ''Al Xu'')) (toLowerCase (normaliseName ''Amy Xu'')) \<and>
   \<not> includesStr (toLowerCase (normaliseName ''Amy Xu'')) (toLowerCase (normaliseName ''Al Xu'')) \<and>
   last (wsTokens (toLowerCase (normaliseName ''Al Xu''))) =
     last (wsTokens (toLowerCase (normaliseName ''Amy Xu''))) \<and>
   charAt0 (hd (wsTokens (toLowerCase (normaliseName ''Al Xu'')))) =
     charAt0 (hd (wsTokens (toLowerCase (normaliseName ''Amy Xu'')))) \<and>
   \<not> namesMatch ''Al Xu'' (Some ''Amy Xu'')"
  by code_simp


section \<open>Properties of the text parser\<close>

lemma errors_finishTeam [simp]: "errors (finishTeam st) = errors st"
  by (simp add: finishTeam_def split: option.splits)

lemma errors_finishGroup [simp]: "errors (finishGroup st) = errors st"
  by (simp add: finishGroup_def Let_def split: option.splits bool.splits)

lemma errors_finishDivision [simp]: "errors (finishDivision st) = errors st"
  by (simp add: finishDivision_def Let_def split: option.splits)

lemma portfolioName_finishTeam [simp]: "portfolioName (finishTeam st) = portfolioName st"
  by (simp add: finishTeam_def split: option.splits)

lemma portfolioName_finishGroup [simp]: "portfolioName (finishGroup st) = portfolioName st"
  by (simp add: finishGroup_def Let_def split: option.splits bool.splits)

lemma portfolioName_finishDivision [simp]: "portfolioName (finishDivision st) = portfolioName st"
  by (simp add: finishDivision_def Let_def split: option.splits)

text \<open>
  Claim C2. Let \<open>scan\<close> be the state after the loop over all lines. If its error list is
  not empty, \<open>parseMarkdown\<close> returns no portfolio, and returns that error list (followed by
  the missing-heading error where the heading is missing as well). A portfolio is returned
  exactly when the returned error list is empty. A document with one valid team and a
  line with an unknown role yields no portfolio and the single error of line 5.
\<close>

theorem parseMarkdown_all_or_nothing:
  fixes ids :: "nat \<Rightarrow> string" and src :: string
  defines "scan \<equiv> parseLines ids (splitOn CHR 0x0A src) 0 initialState"
  shows "(errors scan \<noteq> [] \<longrightarrow>
            r_portfolio (parseMarkdown ids src) = None \<and>
            (r_errors (parseMarkdown ids src) = errors scan \<or>
             r_errors (parseMarkdown ids src) = errors scan @
               [\<lparr>e_line = 1, e_message = ''Missing portfolio heading (# Portfolio Name)''\<rparr>])) \<and>
         (r_portfolio (parseMarkdown ids src) = None \<longleftrightarrow> r_errors (parseMarkdown ids src) \<noteq> []) \<and>
         parseMarkdown ids
           (''# Acme'' @ [CHR 0x0A] @ ''## Platform'' @ [CHR 0x0A] @ ''### Core'' @ [CHR 0x0A] @
            ''- Engineer'' @ [CHR 0x0A] @ ''- 2x Wizard'') =
           \<lparr> r_portfolio = None,
             r_errors = [\<lparr>e_line = 5, e_message = unknownRole ''Wizard''\<rparr>] \<rparr>"
proof -
  have "parseMarkdown ids
           (''# Acme'' @ [CHR 0x0A] @ ''## Platform'' @ [CHR 0x0A] @ ''### Core'' @ [CHR 0x0A] @
            ''- Engineer'' @ [CHR 0x0A] @ ''- 2x Wizard'') =
           \<lparr> r_portfolio = None,
             r_errors = [\<lparr>e_line = 5, e_message = unknownRole ''Wizard''\<rparr>] \<rparr>"
    by code_simp
  then show ?thesis
    by (simp add: parseMarkdown_def Let_def scan_def)
qed

theorem parseMarkdown_all_or_nothing_witness:
  "errors (parseLines showNat (splitOn CHR 0x0A (''# Acme'' @ [CHR 0x0A] @ ''Bogus line'')) 0
      initialState) \<noteq> [] \<and>
   r_portfolio (parseMarkdown showNat (''# Acme'' @ [CHR 0x0A] @ ''Bogus line'')) = None \<and>
   map e_line (r_errors (parseMarkdown showNat (''# Acme'' @ [CHR 0x0A] @ ''Bogus line''))) = [2]"
  using parseMarkdown_all_or_nothing [of showNat "''# Acme'' @ [CHR 0x0A] @ ''Bogus line''"]
  by code_simp

lemma propsOK_parseProps: "propsOK (parseProps s)"
  by (simp add: propsOK_def parseProps_def Let_def split: prod.splits)

lemma propsOK_splitProps: "propsOK (snd (splitProps t))"
  by (simp add: splitProps_def propsOK_parseProps split: option.splits prod.splits)
     (simp add: propsOK_def defaultProps_def)

lemma specOK_mkSpec: "propsOK pr \<Longrightarrow> specOK (mkSpec nm r pr)"
  by (cases pr) (auto simp: propsOK_def specOK_def mkSpec_def)

lemma employeeInvariant_withId: "specOK sp \<Longrightarrow> employeeInvariant (withId i sp)"
  by (simp add: specOK_def employeeInvariant_def withId_def)

lemma specOK_parsePersonLine:
  assumes "parsePersonLine t = Inr ps" and "sp \<in> set ps"
  shows "specOK sp"
proof -
  obtain mainPart pr where sp: "splitProps (trim t) = (mainPart, pr)"
    by (cases "splitProps (trim t)")
  with propsOK_splitProps [of "trim t"] have "propsOK pr" by simp
  then have "specOK (mkSpec nm r pr)" for nm r by (rule specOK_mkSpec)
  with assms sp show ?thesis
    by (auto simp: parsePersonLine_def Let_def split: if_splits option.splits prod.splits)
qed

lemma specOK_parseLeadershipLine:
  assumes "parseLeadershipLine t pre r = Inr sp"
  shows "specOK sp"
proof -
  let ?after = "trim (drop (length pre) t)"
  obtain mainPart pr where s: "splitProps ?after = (mainPart, pr)"
    by (cases "splitProps ?after")
  with propsOK_splitProps [of ?after] have "propsOK pr" by simp
  then have mk: "specOK (mkSpec nm r' pr)" for nm r' by (rule specOK_mkSpec)
  show ?thesis
  proof (cases "parsePersonLine ?after")
    case (Inl e)
    with assms s mk show ?thesis
      by (auto simp: parseLeadershipLine_def Let_def split: if_splits)
  next
    case (Inr persons)
    with assms have "persons = [sp]"
      by (auto simp: parseLeadershipLine_def Let_def split: if_splits list.splits)
    with Inr specOK_parsePersonLine [of ?after persons sp] show ?thesis by simp
  qed
qed


lemma statePersons_finishTeam: "set (statePersons (finishTeam st)) \<subseteq> set (statePersons st)"
  by (auto simp: finishTeam_def statePersons_def groupPersons_def optList_def split: option.splits)

lemma statePersons_finishGroup: "set (statePersons (finishGroup st)) \<subseteq> set (statePersons st)"
proof -
  have "set (statePersons (finishGroup st)) \<subseteq> set (statePersons (finishTeam st))"
    by (auto simp: finishGroup_def Let_def statePersons_def divisionPersons_def optList_def
          split: option.splits bool.splits)
  with statePersons_finishTeam [of st] show ?thesis by blast
qed

lemma statePersons_finishDivision: "set (statePersons (finishDivision st)) \<subseteq> set (statePersons st)"
proof -
  have "set (statePersons (finishDivision st)) \<subseteq> set (statePersons (finishGroup st))"
    by (auto simp: finishDivision_def Let_def statePersons_def optList_def split: option.splits)
  with statePersons_finishGroup [of st] show ?thesis by blast
qed

lemma statePersons_newTeam: "set (statePersons (newTeam ids nm st)) \<subseteq> set (statePersons st)"
  by (auto simp: newTeam_def statePersons_def optList_def)

lemma statePersons_newGroup: "set (statePersons (newGroup ids nm b st)) \<subseteq> set (statePersons st)"
  by (auto simp: newGroup_def statePersons_def groupPersons_def optList_def)

lemma statePersons_newDivision: "set (statePersons (newDivision ids nm st)) \<subseteq> set (statePersons st)"
  by (auto simp: newDivision_def statePersons_def divisionPersons_def optList_def)

lemma statePersons_addError [simp]: "statePersons (addError n m st) = statePersons st"
  by (simp add: addError_def statePersons_def)

lemma goodState_mono: "goodState st \<Longrightarrow> set (statePersons st') \<subseteq> set (statePersons st) \<Longrightarrow> goodState st'"
  by (auto simp: goodState_def)

lemma pushMembers_eq:
  "pushMembers ids ps t n =
     (t\<lparr>t_members := t_members t @ map2 (\<lambda>k sp. withId (ids k) sp) [n..<n + length ps] ps\<rparr>,
      n + length ps)"
proof (induction ps arbitrary: t n)
  case Nil
  then show ?case by simp
next
  case (Cons p ps)
  have "[n..<n + length (p # ps)] = n # [Suc n..<n + length (p # ps)]"
    by (rule upt_conv_Cons) simp
  moreover have "n + length (p # ps) = Suc n + length ps" by simp
  ultimately have u: "[n..<n + length (p # ps)] = n # [Suc n..<Suc n + length ps]"
    by (simp only:)
  show ?case
    unfolding u
    using Cons.IH [of "t\<lparr>t_members := t_members t @ [withId (ids n) p]\<rparr>" "Suc n"]
    by (simp del: upt_Suc)
qed

lemma pushMembers_members:
  assumes "pushMembers ids ps t n = (t', n')" and "p \<in> set (t_members t')"
  shows "p \<in> set (t_members t) \<or> (\<exists>i sp. sp \<in> set ps \<and> p = withId i sp)"
proof -
  from assms have "p \<in> set (t_members t) \<or>
      p \<in> set (map2 (\<lambda>k sp. withId (ids k) sp) [n..<n + length ps] ps)"
    by (auto simp: pushMembers_eq)
  then show ?thesis
    by (auto dest: set_zip_rightD)
qed

lemma goodState_setManager:
  "goodState st \<Longrightarrow> currentGroup st = Some g \<Longrightarrow> employeeInvariant p \<Longrightarrow>
   goodState (st\<lparr>currentGroup := Some (g\<lparr>g_manager := Some p\<rparr>), nextId := k\<rparr>)"
  by (auto simp: goodState_def statePersons_def groupPersons_def optList_def)

lemma goodState_setManagedBy:
  "goodState st \<Longrightarrow> currentGroup st = Some g \<Longrightarrow>
   goodState (st\<lparr>currentGroup := Some (g\<lparr>g_managedBy := m\<rparr>)\<rparr>)"
  by (auto simp: goodState_def statePersons_def groupPersons_def optList_def)

lemma goodState_addStaff:
  "goodState st \<Longrightarrow> currentGroup st = Some g \<Longrightarrow> employeeInvariant p \<Longrightarrow>
   goodState (st\<lparr>currentGroup := Some (g\<lparr>g_staffEngineers := g_staffEngineers g @ [p]\<rparr>),
                nextId := k\<rparr>)"
  by (auto simp: goodState_def statePersons_def groupPersons_def optList_def)

lemma goodState_setTeam:
  "goodState st \<Longrightarrow> currentTeam st = Some t \<Longrightarrow>
   \<forall>p\<in>set (t_members t'). p \<in> set (t_members t) \<or> employeeInvariant p \<Longrightarrow>
   goodState (st\<lparr>currentTeam := Some t', nextId := k\<rparr>)"
  by (auto simp: goodState_def statePersons_def optList_def)

lemma goodState_setHead:
  "goodState st \<Longrightarrow> employeeInvariant p \<Longrightarrow>
   goodState (st\<lparr>headOfEngineering := Some p, nextId := k\<rparr>)"
  by (auto simp: goodState_def statePersons_def optList_def)

lemma goodState_addPrincipal:
  "goodState st \<Longrightarrow> employeeInvariant p \<Longrightarrow>
   goodState (st\<lparr>principalEngineers := principalEngineers st @ [p], nextId := k\<rparr>)"
  by (auto simp: goodState_def statePersons_def optList_def)

lemma goodState_addError [simp]: "goodState (addError n m st) = goodState st"
  by (simp add: goodState_def)

lemma employeeInvariant_leader:
  "parseLeadershipLine trimmed pre r = Inr sp \<Longrightarrow> employeeInvariant (withId i sp)"
  by (auto dest: specOK_parseLeadershipLine intro: employeeInvariant_withId)

lemma goodState_bodyLine:
  assumes "goodState st"
  shows "goodState (bodyLine ids n trimmed st)"
proof -
  have item: "goodState (st\<lparr>currentTeam := Some t', nextId := k'\<rparr>)"
    if "currentTeam st = Some t" "parsePersonLine it = Inr ps" "pushMembers ids ps t k = (t', k')"
    for it ps t k t' k'
  proof (rule goodState_setTeam [OF assms that(1)], rule ballI)
    fix p assume "p \<in> set (t_members t')"
    from pushMembers_members [OF that(3) this]
    show "p \<in> set (t_members t) \<or> employeeInvariant p"
      using that(2) by (metis specOK_parsePersonLine employeeInvariant_withId)
  qed
  show ?thesis
    unfolding bodyLine_def
    using assms
    by (auto split: option.splits sum.splits prod.splits
        intro: goodState_setManager goodState_setManagedBy goodState_addStaff item
          employeeInvariant_leader)
qed

lemma goodState_leadershipLine:
  assumes "goodState st"
  shows "goodState (leadershipLine ids n trimmed st)"
  unfolding leadershipLine_def
  using assms
  by (auto split: sum.splits
      intro: goodState_setHead goodState_addPrincipal goodState_bodyLine employeeInvariant_leader)

lemma goodState_parseLine:
  assumes "goodState st"
  shows "goodState (parseLine ids n l st)"
proof -
  have ft: "goodState (finishTeam st)"
    using assms statePersons_finishTeam by (rule goodState_mono)
  have fg: "goodState (finishGroup st)"
    using assms statePersons_finishGroup by (rule goodState_mono)
  have fd: "goodState (finishDivision st)"
    using assms statePersons_finishDivision by (rule goodState_mono)
  have nt: "goodState (newTeam ids nm (finishTeam st))" for nm
    using ft statePersons_newTeam by (rule goodState_mono)
  have ng: "goodState (newGroup ids nm b (finishGroup st))" for nm b
    using fg statePersons_newGroup by (rule goodState_mono)
  have ng': "goodState (newGroup ids nm b (finishDivision st))" for nm b
    using fd statePersons_newGroup by (rule goodState_mono)
  have nd: "goodState (newDivision ids nm (finishDivision st))" for nm
    using fd statePersons_newDivision by (rule goodState_mono)
  have h1: "goodState (st\<lparr>portfolioName := x\<rparr>)" "goodState (st\<lparr>onshoreTarget := y, portfolioName := x\<rparr>)" for x y
    using assms by (simp_all add: goodState_def statePersons_def)
  show ?thesis
    unfolding parseLine_def Let_def
    using assms nt ng ng' nd h1 goodState_leadershipLine [OF assms]
    by (simp split: option.splits prod.splits)
qed

lemma goodState_parseLines: "goodState st \<Longrightarrow> goodState (parseLines ids ls i st)"
  by (induction ls arbitrary: i st) (simp_all add: goodState_parseLine)

lemma goodState_initial: "goodState initialState"
  by (simp add: goodState_def statePersons_def initialState_def optList_def)

lemma parseMarkdown_persons:
  assumes "r_portfolio (parseMarkdown ids src) = Some u" and "p \<in> set (updatePersons u)"
  shows "employeeInvariant p"
proof -
  define st where "st = finishGroup (finishDivision (parseLines ids (splitOn CHR 0x0A src) 0 initialState))"
  have "goodState (parseLines ids (splitOn CHR 0x0A src) 0 initialState)"
    using goodState_initial by (rule goodState_parseLines)
  then have "goodState (finishDivision (parseLines ids (splitOn CHR 0x0A src) 0 initialState))"
    using statePersons_finishDivision by (rule goodState_mono)
  then have g: "goodState st"
    unfolding st_def using statePersons_finishGroup by (rule goodState_mono)
  from assms(1) have u: "u = \<lparr> u_name = the (portfolioName st),
              u_onshoreTargetPercentage = onshoreTarget st,
              u_headOfEngineering = headOfEngineering st,
              u_principalEngineers = principalEngineers st,
              u_divisions = (if length (divisions st) > 0 then Some (divisions st) else None),
              u_groups = directGroups st \<rparr>"
    by (simp add: parseMarkdown_def Let_def st_def [symmetric] split: if_splits)
  have "set (updatePersons u) \<subseteq> set (statePersons st)"
    unfolding u by (auto simp: updatePersons_def statePersons_def)
  with g assms(2) show ?thesis by (auto simp: goodState_def)
qed

section \<open>Properties of the import rows\<close>

lemma importedRole_iff:
  "importedRole csvRole \<longleftrightarrow>
     mapRole csvRole = Some engineer \<or> mapRole csvRole = Some senior_engineer"
  by (auto simp: importedRole_def mapRole_def Let_def)

lemma importRows_skip:
  "\<not> importedRole (role row) \<Longrightarrow>
   fst (importRows ids (row # rows) n) = fst (importRows ids rows n)"
  by (auto simp: importedRole_def split: option.splits prod.splits)

lemma importRows_take:
  assumes "importedRole (role row)"
  shows "fst (importRows ids (row # rows) n) =
     \<lparr> p_id = ids n, p_name = Some (normaliseName (name row)),
       p_role = the (mapRole (role row)),
       p_type = fst (mapTypeAndVendor (vendor row)),
       p_vendor = (if truthy (snd (mapTypeAndVendor (vendor row)))
                   then snd (mapTypeAndVendor (vendor row)) else None),
       p_location = Some (if fst (mapTypeAndVendor (vendor row)) = employee then onshore
                          else mapLocation (location row)) \<rparr> #
     fst (importRows ids rows (n + 1))"
  using assms
  by (auto simp: importedRole_def Let_def split: option.splits prod.splits)

lemma importRows_persons':
  "p \<in> set (fst (importRows ids rows n)) \<Longrightarrow> employeeInvariant p"
proof (induction rows arbitrary: n)
  case Nil
  then show ?case by simp
next
  case (Cons row rows)
  show ?case
  proof (cases "importedRole (role row)")
    case False
    from Cons.prems have "p \<in> set (fst (importRows ids rows n))"
      unfolding importRows_skip [OF False] .
    then show ?thesis by (rule Cons.IH)
  next
    case True
    have "fst (mapTypeAndVendor (vendor row)) = employee \<Longrightarrow>
        snd (mapTypeAndVendor (vendor row)) = None"
      by (auto simp: mapTypeAndVendor_def split: if_splits)
    with Cons True show ?thesis
      by (auto simp: importRows_take employeeInvariant_def truthy_def simp del: importRows.simps)
  qed
qed

lemma importRows_persons:
  "importRows ids rows n = (ps, cs, sk, n') \<Longrightarrow> p \<in> set ps \<Longrightarrow> employeeInvariant p"
  using importRows_persons' [of p ids rows n] by simp

lemma importRows_employee_row:
  assumes "mapRole (role row) = Some engineer \<or> mapRole (role row) = Some senior_engineer"
    and "toUpperCase (vendor row) = ''M&S''"
  shows "\<exists>q ps. fst (importRows ids (row # rows) n) = q # ps \<and>
           p_type q = employee \<and> p_vendor q = None \<and> p_location q = Some onshore"
proof -
  from assms(1) have "importedRole (role row)" by (simp add: importedRole_iff)
  moreover from assms(2) have "mapTypeAndVendor (vendor row) = (employee, None)"
    by (simp add: mapTypeAndVendor_def)
  ultimately show ?thesis
    by (simp add: importRows_take truthy_def del: importRows.simps)
qed

lemma findTeamInPortfolio_member:
  "findTeamInPortfolio pf tid = Some team \<Longrightarrow> team \<in> set (portfolioTeams pf)"
  unfolding findTeamInPortfolio_def portfolioTeams_def
  by (metis find_Some_iff nth_mem)

lemma importGroup_replacements:
  assumes "r \<in> set (replacements (importGroup ids pf appTeams st g))"
  shows "r \<in> set (replacements st) \<or> replacementOK pf r"
proof (cases "case findBest (claimedTeams st) g appTeams of None \<Rightarrow> True
    | Some (bestMatch, bestResult) \<Rightarrow> score bestResult < MATCH_THRESHOLD")
  case True
  with assms show ?thesis by (simp add: importGroup_def Let_def)
next
  case False
  then obtain bm br where best: "findBest (claimedTeams st) g appTeams = Some (bm, br)"
    by (auto split: option.splits)
  obtain ps cs sk n' where rows: "importRows ids (c_rows g) (drawn st) = (ps, cs, sk, n')"
    by (cases "importRows ids (c_rows g) (drawn st)") auto
  define existing where "existing =
    (case findTeamInPortfolio pf (a_teamId bm) of None \<Rightarrow> [] | Some team \<Rightarrow> t_members team)"
  have ex: "\<exists>t\<in>set (portfolioTeams pf). p \<in> set (t_members t)" if "p \<in> set existing" for p
    using that findTeamInPortfolio_member [of pf "a_teamId bm"]
    by (auto simp: existing_def split: option.splits)
  from assms False best rows have "r \<in> set (replacements st) \<or>
      newMembers r = filter (\<lambda>m. \<not> isEngineer m) existing @ ps"
    by (auto simp: importGroup_def Let_def existing_def)
  then show ?thesis
  proof
    assume "newMembers r = filter (\<lambda>m. \<not> isEngineer m) existing @ ps"
    then have "replacementOK pf r"
      using ex importRows_persons [OF rows]
      by (auto simp: replacementOK_def)
    then show ?thesis ..
  qed simp
qed

lemma foldl_importGroup_replacements:
  "\<forall>r\<in>set (replacements st). replacementOK pf r \<Longrightarrow>
   \<forall>r\<in>set (replacements (foldl (importGroup ids pf appTeams) st gs)). replacementOK pf r"
proof (induction gs arbitrary: st)
  case Nil
  then show ?case by simp
next
  case (Cons g gs)
  have "\<forall>r\<in>set (replacements (importGroup ids pf appTeams st g)). replacementOK pf r"
    using Cons.prems importGroup_replacements [of _ ids pf appTeams st g] by blast
  from Cons.IH [OF this] show ?case by simp
qed

lemma analyseImport_persons:
  "r \<in> set (snd (analyseImport ids csvText pf)) \<Longrightarrow> replacementOK pf r"
  using foldl_importGroup_replacements [of initialImport pf ids "enumerateTeams pf"
      "groupCsvRows (parseCsv csvText)"]
  by (simp add: analyseImport_def runImport_def Let_def initialImport_def)


section \<open>The employee invariant\<close>

text \<open>
  Claim C3. Every person that either engine constructs with type employee is onshore and
  has no vendor. For the text parser: a bracket suffix that resolves to employee gives
  onshore and no vendor; so does every person of a parsed person line, and every person
  of a portfolio that \<open>parseMarkdown\<close> returns. For the import: every member of a
  replacement list is such a person or a kept member of the portfolio, and a row with an
  imported role whose vendor is ``M&S'' in any case gives an employee, onshore, with no
  vendor, whatever its location column says.
\<close>

theorem employee_invariant_at_construction:
  "(fst (parseProps bracketStr) = employee \<longrightarrow> parseProps bracketStr = (employee, onshore, None)) \<and>
   (\<forall>ps. parsePersonLine item = Inr ps \<longrightarrow>
      (\<forall>sp\<in>set ps. s_type sp = employee \<longrightarrow> s_location sp = onshore \<and> s_vendor sp = None)) \<and>
   (\<forall>u. r_portfolio (parseMarkdown ids src) = Some u \<longrightarrow>
      (\<forall>p\<in>set (updatePersons u). employeeInvariant p)) \<and>
   (\<forall>r\<in>set (snd (analyseImport ids csvText pf)). \<forall>p\<in>set (newMembers r).
      employeeInvariant p \<or>
      (\<exists>t\<in>set (portfolioTeams pf). p \<in> set (t_members t) \<and> \<not> isEngineer p)) \<and>
   ((mapRole (role row) = Some engineer \<or> mapRole (role row) = Some senior_engineer) \<and>
    toUpperCase (vendor row) = ''M&S'' \<longrightarrow>
      (\<exists>q ps. fst (importRows ids (row # rows) n) = q # ps \<and>
         p_type q = employee \<and> p_vendor q = None \<and> p_location q = Some onshore))"
proof (intro conjI)
  show "fst (parseProps bracketStr) = employee \<longrightarrow>
      parseProps bracketStr = (employee, onshore, None)"
    using propsOK_parseProps [of bracketStr] by (simp add: propsOK_def)
  show "\<forall>ps. parsePersonLine item = Inr ps \<longrightarrow>
      (\<forall>sp\<in>set ps. s_type sp = employee \<longrightarrow> s_location sp = onshore \<and> s_vendor sp = None)"
    using specOK_parsePersonLine [of item] by (auto simp: specOK_def)
  show "\<forall>u. r_portfolio (parseMarkdown ids src) = Some u \<longrightarrow>
      (\<forall>p\<in>set (updatePersons u). employeeInvariant p)"
    using parseMarkdown_persons by blast
  show "\<forall>r\<in>set (snd (analyseImport ids csvText pf)). \<forall>p\<in>set (newMembers r).
      employeeInvariant p \<or>
      (\<exists>t\<in>set (portfolioTeams pf). p \<in> set (t_members t) \<and> \<not> isEngineer p)"
    using analyseImport_persons [of _ ids csvText pf] by (simp add: replacementOK_def)
  show "(mapRole (role row) = Some engineer \<or> mapRole (role row) = Some senior_engineer) \<and>
    toUpperCase (vendor row) = ''M&S'' \<longrightarrow>
      (\<exists>q ps. fst (importRows ids (row # rows) n) = q # ps \<and>
         p_type q = employee \<and> p_vendor q = None \<and> p_location q = Some onshore)"
    using importRows_employee_row [of row ids rows n] by blast
qed

theorem employee_invariant_at_construction_witness:
  "fst (parseProps ''[employee, offshore, TCS]'') = employee \<and>
   parseProps ''[employee, offshore, TCS]'' = (employee, onshore, None) \<and>
   parsePersonLine ''Bob, Engineer [offshore, TCS]'' =
     Inr [\<lparr>s_name = Some ''Bob'', s_role = engineer, s_type = employee, s_location = onshore,
           s_vendor = None\<rparr>] \<and>
   map updatePersons (optList (r_portfolio (parseMarkdown showNat
       (''# A'' @ [CHR 0x0A] @ ''## G'' @ [CHR 0x0A] @ ''### T'' @ [CHR 0x0A] @
        ''- Bob, Engineer [offshore, TCS]'')))) =
     [[\<lparr>p_id = ''2'', p_name = Some ''Bob'', p_role = engineer, p_type = employee,
        p_vendor = None, p_location = Some onshore\<rparr>]] \<and>
   map newMembers (snd (analyseImport showNat ''Acme,Platform,Core,Engineer,Offshore,m&s,Al Xu''
       \<lparr>pf_id = ''pf'', pf_name = ''Acme'', pf_headOfEngineering = None,
        pf_principalEngineers = [], pf_divisions = None,
        pf_groups = [\<lparr>g_id = ''g1'', g_name = ''Platform'', g_manager = None,
          g_managedBy = None, g_staffEngineers = [],
          g_teams = [\<lparr>t_id = ''t1'', t_name = ''Core'', t_members = []\<rparr>]\<rparr>],
        pf_onshoreTargetPercentage = None\<rparr>)) =
     [[\<lparr>p_id = ''0'', p_name = Some ''Al Xu'', p_role = engineer, p_type = employee,
        p_vendor = None, p_location = Some onshore\<rparr>]] \<and>
   mapRole ''Engineer'' = Some engineer \<and>
   toUpperCase ''m&s'' = ''M&S''"
proof -
  note t = employee_invariant_at_construction [of "''[employee, offshore, TCS]''"
      "''Bob, Engineer [offshore, TCS]''" showNat
      "''# A'' @ [CHR 0x0A] @ ''## G'' @ [CHR 0x0A] @ ''### T'' @ [CHR 0x0A] @
        ''- Bob, Engineer [offshore, TCS]''"
      "''Acme,Platform,Core,Engineer,Offshore,m&s,Al Xu''"
      "\<lparr>pf_id = ''pf'', pf_name = ''Acme'', pf_headOfEngineering = None,
        pf_principalEngineers = [], pf_divisions = None,
        pf_groups = [\<lparr>g_id = ''g1'', g_name = ''Platform'', g_manager = None,
          g_managedBy = None, g_staffEngineers = [],
          g_teams = [\<lparr>t_id = ''t1'', t_name = ''Core'', t_members = []\<rparr>]\<rparr>],
        pf_onshoreTargetPercentage = None\<rparr>"
      "\<lparr>portfolio = ''Acme'', csvGroup = ''Platform'', teamName = ''Core'', role = ''Engineer'',
        location = ''Offshore'', vendor = ''m&s'', name = ''Al Xu'', lineNumber = 1\<rparr>" "[]" 0]
  have e1: "fst (parseProps ''[employee, offshore, TCS]'') = employee"
    by code_simp
  have e2: "parseProps ''[employee, offshore, TCS]'' = (employee, onshore, None)"
    by code_simp
  have e3: "parsePersonLine ''Bob, Engineer [offshore, TCS]'' =
     Inr [\<lparr>s_name = Some ''Bob'', s_role = engineer, s_type = employee, s_location = onshore,
           s_vendor = None\<rparr>]"
    by code_simp
  have e4: "map updatePersons (optList (r_portfolio (parseMarkdown showNat
       (''# A'' @ [CHR 0x0A] @ ''## G'' @ [CHR 0x0A] @ ''### T'' @ [CHR 0x0A] @
        ''- Bob, Engineer [offshore, TCS]'')))) =
     [[\<lparr>p_id = ''2'', p_name = Some ''Bob'', p_role = engineer, p_type = employee,
        p_vendor = None, p_location = Some onshore\<rparr>]]"
    by code_simp
  have e5: "map newMembers (snd (analyseImport showNat ''Acme,Platform,Core,Engineer,Offshore,m&s,Al Xu''
       \<lparr>pf_id = ''pf'', pf_name = ''Acme'', pf_headOfEngineering = None,
        pf_principalEngineers = [], pf_divisions = None,
        pf_groups = [\<lparr>g_id = ''g1'', g_name = ''Platform'', g_manager = None,
          g_managedBy = None, g_staffEngineers = [],
          g_teams = [\<lparr>t_id = ''t1'', t_name = ''Core'', t_members = []\<rparr>]\<rparr>],
        pf_onshoreTargetPercentage = None\<rparr>)) =
     [[\<lparr>p_id = ''0'', p_name = Some ''Al Xu'', p_role = engineer, p_type = employee,
        p_vendor = None, p_location = Some onshore\<rparr>]]"
    by code_simp
  have e6: "mapRole ''Engineer'' = Some engineer"
    by code_simp
  have e7: "toUpperCase ''m&s'' = ''M&S''"
    by code_simp
  from t e1 e2 e3 e4 e5 e6 e7 show ?thesis
    by (simp only: simp_thms)
qed

section \<open>Properties of the encoder\<close>

lemma countUnnamed_present:
  "distinct (map fst acc) \<Longrightarrow> k \<in> fst ` set acc \<Longrightarrow>
   countUnnamed k m acc = map (\<lambda>(k', p, c). (k', p, c + (if k' = k then 1 else 0))) acc"
proof (induction acc)
  case Nil
  then show ?case by simp
next
  case (Cons e acc)
  obtain k' p c where e: "e = (k', p, c)" by (cases e)
  show ?case
  proof (cases "k' = k")
    case True
    with Cons.prems e have "\<forall>x\<in>set acc. fst x \<noteq> k" by auto
    then have "map (\<lambda>(k', p, c). (k', p, c + (if k' = k then 1 else 0))) acc = acc"
      by (induction acc) auto
    with True e show ?thesis by simp
  next
    case False
    with Cons e show ?thesis by auto
  qed
qed

lemma countUnnamed_absent:
  "k \<notin> fst ` set acc \<Longrightarrow> countUnnamed k m acc = acc @ [(k, m, 1)]"
  by (induction acc) auto

lemma foldl_unnamedStep:
  "distinct (map fst acc) \<Longrightarrow>
   foldl unnamedStep acc ms =
     map (\<lambda>(k, p, c). (k, p, c + length (filter (\<lambda>x. groupingKey x = k) ms))) acc @
     coalesceUnnamed (filter (\<lambda>x. groupingKey x \<notin> fst ` set acc) ms)"
proof (induction ms arbitrary: acc)
  case Nil
  then show ?case by simp
next
  case (Cons m ms)
  let ?k = "groupingKey m"
  show ?case
  proof (cases "?k \<in> fst ` set acc")
    case True
    define acc' where "acc' = map (\<lambda>(k', p, c). (k', p, c + (if k' = ?k then 1 else 0))) acc"
    have step: "unnamedStep acc m = acc'"
      using Cons.prems True by (simp add: unnamedStep_def countUnnamed_present acc'_def)
    have keys: "map fst acc' = map fst acc" unfolding acc'_def by (induction acc) auto
    then have keys': "fst ` set acc' = fst ` set acc"
      by (metis list.set_map)
    have d: "distinct (map fst acc')" unfolding keys by (rule Cons.prems)
    have cnt: "map (\<lambda>(k, p, c). (k, p, c + length (filter (\<lambda>x. groupingKey x = k) ms))) acc' =
        map (\<lambda>(k, p, c). (k, p, c + length (filter (\<lambda>x. groupingKey x = k) (m # ms)))) acc"
      unfolding acc'_def by (induction acc) auto
    have rest: "filter (\<lambda>x. groupingKey x \<notin> fst ` set acc) (m # ms) =
        filter (\<lambda>x. groupingKey x \<notin> fst ` set acc') ms"
      using True by (simp add: keys')
    have "foldl unnamedStep acc (m # ms) = foldl unnamedStep acc' ms"
      by (simp add: step)
    also have "\<dots> = map (\<lambda>(k, p, c). (k, p, c + length (filter (\<lambda>x. groupingKey x = k) ms))) acc' @
        coalesceUnnamed (filter (\<lambda>x. groupingKey x \<notin> fst ` set acc') ms)"
      using d by (rule Cons.IH)
    finally show ?thesis
      by (simp only: cnt rest)
  next
    case False
    define acc' where "acc' = acc @ [(?k, m, 1)]"
    define Q where "Q = (\<lambda>x. groupingKey x \<notin> fst ` set acc)"
    define Q' where "Q' = (\<lambda>x. groupingKey x \<notin> fst ` set acc')"
    have step: "unnamedStep acc m = acc'"
      using False by (simp add: unnamedStep_def countUnnamed_absent acc'_def)
    from Cons.prems False have d: "distinct (map fst acc')" by (auto simp: acc'_def)
    have f2: "map (\<lambda>(k, p, c). (k, p, c + length (filter (\<lambda>x. groupingKey x = k) ms))) acc' =
        map (\<lambda>(k, p, c). (k, p, c + length (filter (\<lambda>x. groupingKey x = k) (m # ms)))) acc @
        [(?k, m, 1 + length (filter (\<lambda>x. groupingKey x = ?k) ms))]"
      using False by (auto simp: acc'_def image_iff)
    have f3: "filter Q (m # ms) = m # filter Q ms"
      using False by (simp add: Q_def)
    have f4: "coalesceUnnamed (m # filter Q ms) =
        (?k, m, 1 + length (filter (\<lambda>x. groupingKey x = ?k) (filter Q ms))) #
        coalesceUnnamed (filter (\<lambda>x. groupingKey x \<noteq> ?k) (filter Q ms))"
      by simp
    have "filter (\<lambda>x. groupingKey x = ?k) (filter Q ms) = filter (\<lambda>x. groupingKey x = ?k) ms"
      unfolding filter_filter using False by (intro filter_cong) (force simp: Q_def)+
    then have f5: "length (filter (\<lambda>x. groupingKey x = ?k) (filter Q ms)) =
        length (filter (\<lambda>x. groupingKey x = ?k) ms)"
      by simp
    have f6: "filter (\<lambda>x. groupingKey x \<noteq> ?k) (filter Q ms) = filter Q' ms"
      unfolding filter_filter by (intro filter_cong) (force simp: Q_def Q'_def acc'_def)+
    have "foldl unnamedStep acc (m # ms) = foldl unnamedStep acc' ms"
      by (simp add: step)
    also have "\<dots> = map (\<lambda>(k, p, c). (k, p, c + length (filter (\<lambda>x. groupingKey x = k) ms))) acc' @
        coalesceUnnamed (filter Q' ms)"
      unfolding Q'_def using d by (rule Cons.IH)
    also have "\<dots> = map (\<lambda>(k, p, c). (k, p, c + length (filter (\<lambda>x. groupingKey x = k) (m # ms)))) acc @
        coalesceUnnamed (filter Q (m # ms))"
      by (simp only: f2 f3 f4 f5 f6 append_assoc append_Cons append_Nil)
    finally show ?thesis by (simp only: Q_def)
  qed
qed

lemma sortMembers_eq:
  "sortMembers ms (named, unnamed) =
     (named @ filter (\<lambda>m. truthy (p_name m)) ms,
      foldl unnamedStep unnamed (filter (\<lambda>m. \<not> truthy (p_name m)) ms))"
  by (induction ms arbitrary: named unnamed) (simp_all add: unnamedStep_def)

lemma formatTeamMembers_coalesce:
  "formatTeamMembers ms =
     map unnamedLine (coalesceUnnamed (filter (\<lambda>m. \<not> truthy (p_name m)) ms)) @
     map (\<lambda>p. ''- '' @ namedPersonLine p) (filter (\<lambda>m. truthy (p_name m)) ms)"
  using foldl_unnamedStep [of "[]" "filter (\<lambda>m. \<not> truthy (p_name m)) ms"]
  by (simp add: formatTeamMembers_def sortMembers_eq)

lemma roleString_sep:
  "r \<in> set allRoles \<Longrightarrow> r' \<in> set allRoles \<Longrightarrow>
   roleString r @ CHR ''|'' # x = roleString r' @ CHR ''|'' # y \<Longrightarrow> r = r' \<and> x = y"
  by (auto simp: allRoles_def)

lemma typeString_sep:
  "typeString t @ CHR ''|'' # x = typeString t' @ CHR ''|'' # y \<Longrightarrow> t = t' \<and> x = y"
  by (cases t; cases t') auto

lemma locationString_sep:
  "locationString l @ CHR ''|'' # x = locationString l' @ CHR ''|'' # y \<Longrightarrow> l = l' \<and> x = y"
  by (cases l; cases l') auto

lemma groupingKey_eq_iff:
  assumes "p_role x \<in> set allRoles" and "p_role y \<in> set allRoles"
  shows "groupingKey x = groupingKey y \<longleftrightarrow> memberKind x = memberKind y"
proof
  assume "groupingKey x = groupingKey y"
  then have e: "roleString (p_role x) @ CHR ''|'' #
      (typeString (p_type x) @ CHR ''|'' #
        (locationString (case p_location x of None \<Rightarrow> onshore | Some l \<Rightarrow> l) @ CHR ''|'' #
          (case p_vendor x of None \<Rightarrow> [] | Some v \<Rightarrow> v))) =
     roleString (p_role y) @ CHR ''|'' #
      (typeString (p_type y) @ CHR ''|'' #
        (locationString (case p_location y of None \<Rightarrow> onshore | Some l \<Rightarrow> l) @ CHR ''|'' #
          (case p_vendor y of None \<Rightarrow> [] | Some v \<Rightarrow> v)))"
    by (simp add: groupingKey_def)
  from roleString_sep [OF assms e] have r: "p_role x = p_role y"
    and e2: "typeString (p_type x) @ CHR ''|'' #
        (locationString (case p_location x of None \<Rightarrow> onshore | Some l \<Rightarrow> l) @ CHR ''|'' #
          (case p_vendor x of None \<Rightarrow> [] | Some v \<Rightarrow> v)) =
      typeString (p_type y) @ CHR ''|'' #
        (locationString (case p_location y of None \<Rightarrow> onshore | Some l \<Rightarrow> l) @ CHR ''|'' #
          (case p_vendor y of None \<Rightarrow> [] | Some v \<Rightarrow> v))"
    by simp_all
  from typeString_sep [OF e2] have t: "p_type x = p_type y"
    and e3: "locationString (case p_location x of None \<Rightarrow> onshore | Some l \<Rightarrow> l) @ CHR ''|'' #
          (case p_vendor x of None \<Rightarrow> [] | Some v \<Rightarrow> v) =
        locationString (case p_location y of None \<Rightarrow> onshore | Some l \<Rightarrow> l) @ CHR ''|'' #
          (case p_vendor y of None \<Rightarrow> [] | Some v \<Rightarrow> v)"
    by simp_all
  from locationString_sep [OF e3] r t show "memberKind x = memberKind y"
    by (simp add: memberKind_def)
next
  assume "memberKind x = memberKind y"
  then show "groupingKey x = groupingKey y"
    by (simp add: memberKind_def groupingKey_def)
qed

lemma firstOfKind_subset: "set (firstOfKind ms) \<subseteq> set ms"
  by (induction ms rule: firstOfKind.induct) auto

lemma coalesceUnnamed_kinds:
  "\<forall>m\<in>set us. p_role m \<in> set allRoles \<Longrightarrow>
   coalesceUnnamed us = map (\<lambda>m. (groupingKey m, m, kindCount us m)) (firstOfKind us)"
proof (induction us rule: firstOfKind.induct)
  case 1
  then show ?case by simp
next
  case (2 m ms)
  let ?ms' = "filter (\<lambda>x. memberKind x \<noteq> memberKind m) ms"
  from "2.prems" have ok: "p_role m \<in> set allRoles" "\<forall>x\<in>set ms. p_role x \<in> set allRoles"
    by simp_all
  have key: "groupingKey x = groupingKey m \<longleftrightarrow> memberKind x = memberKind m" if "x \<in> set ms" for x
    using that ok by (simp add: groupingKey_eq_iff)
  have f1: "filter (\<lambda>x. groupingKey x \<noteq> groupingKey m) ms = ?ms'"
    by (rule filter_cong) (simp_all add: key)
  have f2: "filter (\<lambda>x. groupingKey x = groupingKey m) ms = filter (\<lambda>x. memberKind x = memberKind m) ms"
    by (rule filter_cong) (simp_all add: key)
  from ok have "\<forall>x\<in>set ?ms'. p_role x \<in> set allRoles" by simp
  then have IH: "coalesceUnnamed ?ms' = map (\<lambda>x. (groupingKey x, x, kindCount ?ms' x)) (firstOfKind ?ms')"
    by (rule "2.IH")
  have cnt: "kindCount ?ms' x = kindCount (m # ms) x" if "x \<in> set (firstOfKind ?ms')" for x
  proof -
    from that firstOfKind_subset [of ?ms'] have x: "memberKind x \<noteq> memberKind m" by auto
    have "filter (\<lambda>y. memberKind y = memberKind x) ?ms' = filter (\<lambda>y. memberKind y = memberKind x) ms"
      unfolding filter_filter using x by (intro filter_cong) auto
    with x show ?thesis by (auto simp: kindCount_def)
  qed
  have "map (\<lambda>x. (groupingKey x, x, kindCount ?ms' x)) (firstOfKind ?ms') =
      map (\<lambda>x. (groupingKey x, x, kindCount (m # ms) x)) (firstOfKind ?ms')"
    by (rule map_cong) (simp_all add: cnt)
  with IH f1 f2 show ?case by (simp add: kindCount_def)
qed

lemma joinWith_snoc:
  "xs \<noteq> [] \<Longrightarrow> joinWith [c] xs @ [c] = concat (map (\<lambda>l. l @ [c]) xs)"
  by (induction "[c]" xs rule: joinWith.induct) simp_all

lemma concat_lines_end:
  "xs \<noteq> [] \<Longrightarrow> \<exists>p. concat (map (\<lambda>l. l @ [c]) xs) = p @ [c]"
proof -
  assume "xs \<noteq> []"
  then have "xs = butlast xs @ [last xs]" by simp
  then have "concat (map (\<lambda>l. l @ [c]) xs) =
      concat (map (\<lambda>l. l @ [c]) (butlast xs @ [last xs]))" by simp
  also have "\<dots> = (concat (map (\<lambda>l. l @ [c]) (butlast xs)) @ last xs) @ [c]" by simp
  finally show ?thesis by blast
qed

lemma concat_lines_mem:
  assumes "x \<in> set xs" and "x @ [c] = p @ b @ q"
  shows "\<exists>pre post. concat (map (\<lambda>l. l @ [c]) xs) = pre @ b @ post"
proof -
  from assms(1) obtain ys zs where "xs = ys @ x # zs" by (auto dest: split_list)
  then have "concat (map (\<lambda>l. l @ [c]) xs) =
      (concat (map (\<lambda>l. l @ [c]) ys) @ p) @ b @ (q @ concat (map (\<lambda>l. l @ [c]) zs))"
    using assms(2) by simp
  then show ?thesis by blast
qed

lemma group_contains_team:
  assumes "team \<in> set (g_teams grp)"
  shows "\<exists>pre post. generateGroupMarkdown grp depth @ [CHR 0x0A] =
     pre @ ([CHR 0x0A, CHR 0x0A] @
       joinWith [CHR 0x0A]
         ((replicate (depth + 1) CHR ''#'' @ '' '' @ t_name team) # formatTeamMembers (t_members team)) @
       [CHR 0x0A]) @ post"
proof -
  define hd_lines where "hd_lines = [replicate depth CHR ''#'' @ '' '' @ g_name grp] @
        (case g_manager grp of
           Some m \<Rightarrow> [''Manager: '' @ leaderPersonLine m]
         | None \<Rightarrow>
             if truthy (g_managedBy grp) then [''Managed by: '' @ the (g_managedBy grp)]
             else []) @
        map (\<lambda>se. ''Staff: '' @ leaderPersonLine se) (g_staffEngineers grp)"
  define cat where "cat = (\<lambda>xs :: string list. concat (map (\<lambda>l. l @ [CHR 0x0A]) xs))"
  define block where "block = (replicate (depth + 1) CHR ''#'' @ '' '' @ t_name team) # formatTeamMembers (t_members team)"
  from assms obtain t1 t2 where ts: "g_teams grp = t1 @ team # t2" by (auto dest: split_list)
  have ne: "hd_lines @ concat (map (teamLines depth) t1) \<noteq> []" by (simp add: hd_lines_def)
  have "generateGroupMarkdown grp depth @ [CHR 0x0A] =
      cat (hd_lines @ concat (map (teamLines depth) (g_teams grp)))"
    unfolding cat_def generateGroupMarkdown_def hd_lines_def
    by (subst joinWith_snoc) simp_all
  also have "\<dots> = cat (hd_lines @ concat (map (teamLines depth) t1)) @ cat (teamLines depth team) @
      cat (concat (map (teamLines depth) t2))"
    by (simp add: ts cat_def)
  also have "cat (teamLines depth team) = [CHR 0x0A] @ cat block"
    by (simp add: teamLines_def cat_def block_def)
  also have "cat block = joinWith [CHR 0x0A] block @ [CHR 0x0A]"
    unfolding cat_def by (subst joinWith_snoc) (simp_all add: block_def)
  finally have e: "generateGroupMarkdown grp depth @ [CHR 0x0A] =
      cat (hd_lines @ concat (map (teamLines depth) t1)) @
      ([CHR 0x0A] @ joinWith [CHR 0x0A] block @ [CHR 0x0A]) @
      cat (concat (map (teamLines depth) t2))" .
  from concat_lines_end [OF ne, of "CHR 0x0A"] obtain p where
    p: "cat (hd_lines @ concat (map (teamLines depth) t1)) = p @ [CHR 0x0A]"
    by (auto simp: cat_def)
  have "generateGroupMarkdown grp depth @ [CHR 0x0A] =
      p @ ([CHR 0x0A, CHR 0x0A] @ joinWith [CHR 0x0A] block @ [CHR 0x0A]) @
      cat (concat (map (teamLines depth) t2))"
    unfolding e p by simp
  then show ?thesis unfolding block_def by blast
qed

lemma divisionGroupLines_mem:
  "grp \<in> set gs \<Longrightarrow> generateGroupMarkdown grp 3 \<in> set (divisionGroupLines gs i)"
  by (induction gs i rule: divisionGroupLines.induct) auto

lemma division_contains_group:
  assumes "grp \<in> set (d_groups dv)" and "generateGroupMarkdown grp 3 @ [CHR 0x0A] = p @ b @ q"
  shows "\<exists>pre post. generateDivisionMarkdown dv @ [CHR 0x0A] = pre @ b @ post"
proof -
  have "generateDivisionMarkdown dv @ [CHR 0x0A] =
      concat (map (\<lambda>l. l @ [CHR 0x0A]) ([''## Division: '' @ d_name dv, []] @ divisionGroupLines (d_groups dv) 0))"
    unfolding generateDivisionMarkdown_def by (subst joinWith_snoc) simp_all
  moreover have "generateGroupMarkdown grp 3 \<in>
      set ([''## Division: '' @ d_name dv, []] @ divisionGroupLines (d_groups dv) 0)"
    using divisionGroupLines_mem [OF assms(1), of 0] by simp
  ultimately show ?thesis
    using concat_lines_mem [OF _ assms(2)] by metis
qed

lemma document_contains_line:
  assumes "x = generateGroupMarkdown grp 2 \<and> grp \<in> set (pf_groups pf) \<or>
           (\<exists>ds dv. pf_divisions pf = Some ds \<and> dv \<in> set ds \<and> x = generateDivisionMarkdown dv)"
    and "x @ [CHR 0x0A] = p @ b @ q"
  shows "\<exists>pre post. generateMarkdown pf = pre @ b @ post"
proof -
  define top where "top = [''# '' @ pf_name pf @ '' ('' @
            showNat (case pf_onshoreTargetPercentage pf of None \<Rightarrow> 50 | Some t \<Rightarrow> t) @
            ''% onshore target)'', []] @
            (case pf_headOfEngineering pf of
               Some h \<Rightarrow> [''Head of Engineering: '' @ leaderPersonLine h]
             | None \<Rightarrow> []) @
            map (\<lambda>pe. ''Principal Engineer: '' @ leaderPersonLine pe) (pf_principalEngineers pf)"
  define dvs where "dvs = (case pf_divisions pf of
               None \<Rightarrow> []
             | Some ds \<Rightarrow> concat (map (\<lambda>d. [[], generateDivisionMarkdown d]) ds))"
  define grs where "grs = concat (map (\<lambda>g. [[], generateGroupMarkdown g 2]) (pf_groups pf))"
  have ne: "top @ dvs @ grs \<noteq> []" by (simp add: top_def)
  have "generateMarkdown pf = joinWith [CHR 0x0A] (top @ dvs @ grs) @ [CHR 0x0A]"
    by (simp add: generateMarkdown_def Let_def top_def dvs_def grs_def)
  also have "\<dots> = concat (map (\<lambda>l. l @ [CHR 0x0A]) (top @ dvs @ grs))"
    using ne by (rule joinWith_snoc)
  finally have doc: "generateMarkdown pf = concat (map (\<lambda>l. l @ [CHR 0x0A]) (top @ dvs @ grs))" .
  from assms(1) have "x \<in> set dvs \<or> x \<in> set grs"
  proof
    assume "x = generateGroupMarkdown grp 2 \<and> grp \<in> set (pf_groups pf)"
    then have "x \<in> set grs" by (auto simp: grs_def)
    then show ?thesis ..
  next
    assume "\<exists>ds dv. pf_divisions pf = Some ds \<and> dv \<in> set ds \<and> x = generateDivisionMarkdown dv"
    then obtain ds dv where "pf_divisions pf = Some ds" "dv \<in> set ds" "x = generateDivisionMarkdown dv"
      by blast
    then have "x \<in> set dvs" by (auto simp: dvs_def)
    then show ?thesis ..
  qed
  then have "x \<in> set (top @ dvs @ grs)" by auto
  from concat_lines_mem [OF this assms(2)] doc show ?thesis by simp
qed

lemma portfolioTeams_cases:
  assumes "team \<in> set (portfolioTeams pf)"
  shows "(\<exists>grp\<in>set (pf_groups pf). team \<in> set (g_teams grp)) \<or>
         (\<exists>ds dv grp. pf_divisions pf = Some ds \<and> dv \<in> set ds \<and> grp \<in> set (d_groups dv) \<and>
            team \<in> set (g_teams grp))"
proof (cases "pf_divisions pf")
  case None
  with assms show ?thesis by (auto simp: portfolioTeams_def)
next
  case (Some ds)
  with assms show ?thesis by (fastforce simp: portfolioTeams_def)
qed

lemma document_contains_team:
  assumes "team \<in> set (portfolioTeams pf)"
  shows "\<exists>pre post d. (d = 3 \<or> d = 4) \<and>
     generateMarkdown pf = pre @ ([CHR 0x0A, CHR 0x0A] @
       joinWith [CHR 0x0A]
         ((replicate d CHR ''#'' @ '' '' @ t_name team) # formatTeamMembers (t_members team)) @
       [CHR 0x0A]) @ post"
proof -
  from portfolioTeams_cases [OF assms] show ?thesis
  proof
    assume "\<exists>grp\<in>set (pf_groups pf). team \<in> set (g_teams grp)"
    then obtain grp where g: "grp \<in> set (pf_groups pf)" "team \<in> set (g_teams grp)" by blast
    from group_contains_team [OF g(2), of 2] obtain p q where
      "generateGroupMarkdown grp 2 @ [CHR 0x0A] =
     p @ ([CHR 0x0A, CHR 0x0A] @
       joinWith [CHR 0x0A]
         ((replicate 3 CHR ''#'' @ '' '' @ t_name team) # formatTeamMembers (t_members team)) @
       [CHR 0x0A]) @ q" by auto
    from document_contains_line [OF _ this, of grp pf] g(1) show ?thesis by blast
  next
    assume "\<exists>ds dv grp. pf_divisions pf = Some ds \<and> dv \<in> set ds \<and> grp \<in> set (d_groups dv) \<and>
            team \<in> set (g_teams grp)"
    then obtain ds dv grp where d: "pf_divisions pf = Some ds" "dv \<in> set ds"
      "grp \<in> set (d_groups dv)" "team \<in> set (g_teams grp)" by blast
    from group_contains_team [OF d(4), of 3] obtain p q where
      "generateGroupMarkdown grp 3 @ [CHR 0x0A] =
     p @ ([CHR 0x0A, CHR 0x0A] @
       joinWith [CHR 0x0A]
         ((replicate 4 CHR ''#'' @ '' '' @ t_name team) # formatTeamMembers (t_members team)) @
       [CHR 0x0A]) @ q" by auto
    from division_contains_group [OF d(3) this] obtain p' q' where
      "generateDivisionMarkdown dv @ [CHR 0x0A] = p' @ ([CHR 0x0A, CHR 0x0A] @
       joinWith [CHR 0x0A]
         ((replicate 4 CHR ''#'' @ '' '' @ t_name team) # formatTeamMembers (t_members team)) @
       [CHR 0x0A]) @ q'" by blast
    from document_contains_line [OF _ this, of grp pf] d(1,2) show ?thesis by blast
  qed
qed

lemma formatTeamMembers_kinds:
  assumes "\<forall>m\<in>set (filter (\<lambda>m. \<not> truthy (p_name m)) ms). p_role m \<in> set allRoles"
  shows "formatTeamMembers ms =
     map (\<lambda>m. ''- '' @
            (if 1 < kindCount (filter (\<lambda>m. \<not> truthy (p_name m)) ms) m
             then showNat (kindCount (filter (\<lambda>m. \<not> truthy (p_name m)) ms) m) @ ''x '' else []) @
            ROLE_LABELS (p_role m) @ personProps m)
       (firstOfKind (filter (\<lambda>m. \<not> truthy (p_name m)) ms)) @
     map (\<lambda>m. ''- '' @ namedPersonLine m) (filter (\<lambda>m. truthy (p_name m)) ms)"
  unfolding formatTeamMembers_coalesce coalesceUnnamed_kinds [OF assms]
  by (simp add: unnamedLine_def comp_def)

text \<open>
  Claim C9. Take a team of a portfolio whose unnamed members have roles of the data
  model. The document that \<open>generateMarkdown\<close> returns holds, after an empty line, the
  heading of the team and then, line after line up to the next line break, first one
  line for every combination of role, type, location and vendor among the unnamed
  members, in the order in which the combinations first occur and with the number of
  unnamed members of that combination, and after them one line for every named member,
  in their order. So every line of unnamed members stands before every line of a named
  member, wherever the members stand in the list.
\<close>

theorem generateMarkdown_unnamed_first:
  fixes pf :: Portfolio and team :: Team
  defines "unnamed \<equiv> filter (\<lambda>m. \<not> truthy (p_name m)) (t_members team)"
    and "named \<equiv> filter (\<lambda>m. truthy (p_name m)) (t_members team)"
  assumes "team \<in> set (portfolioTeams pf)"
    and "\<forall>m\<in>set unnamed. p_role m \<in> set allRoles"
  shows "\<exists>pre post d. (d = 3 \<or> d = 4) \<and>
     generateMarkdown pf =
       pre @ [CHR 0x0A, CHR 0x0A] @
       joinWith [CHR 0x0A]
         ([replicate d CHR ''#'' @ '' '' @ t_name team] @
          map (\<lambda>m. ''- '' @
                 (if 1 < kindCount unnamed m then showNat (kindCount unnamed m) @ ''x '' else []) @
                 ROLE_LABELS (p_role m) @ personProps m)
            (firstOfKind unnamed) @
          map (\<lambda>m. ''- '' @ namedPersonLine m) named) @
       [CHR 0x0A] @ post"
proof -
  from document_contains_team [OF assms(3)] obtain pre post d where
    d: "d = 3 \<or> d = 4" and
    doc: "generateMarkdown pf = pre @ ([CHR 0x0A, CHR 0x0A] @
       joinWith [CHR 0x0A]
         ((replicate d CHR ''#'' @ '' '' @ t_name team) # formatTeamMembers (t_members team)) @
       [CHR 0x0A]) @ post"
    by blast
  from assms(4) have ok: "\<forall>m\<in>set (filter (\<lambda>m. \<not> truthy (p_name m)) (t_members team)).
      p_role m \<in> set allRoles"
    by (simp only: unnamed_def)
  have "generateMarkdown pf =
       pre @ [CHR 0x0A, CHR 0x0A] @
       joinWith [CHR 0x0A]
         ([replicate d CHR ''#'' @ '' '' @ t_name team] @
          map (\<lambda>m. ''- '' @
                 (if 1 < kindCount unnamed m then showNat (kindCount unnamed m) @ ''x '' else []) @
                 ROLE_LABELS (p_role m) @ personProps m)
            (firstOfKind unnamed) @
          map (\<lambda>m. ''- '' @ namedPersonLine m) named) @
       [CHR 0x0A] @ post"
    unfolding doc formatTeamMembers_kinds [OF ok] unnamed_def named_def by simp
  with d show ?thesis by blast
qed

theorem generateMarkdown_unnamed_first_witness:
  "mixedTeam \<in> set (portfolioTeams mixedPortfolio) \<and>
   map p_role (filter (\<lambda>m. \<not> truthy (p_name m)) (t_members mixedTeam)) =
     [engineer, senior_engineer, engineer] \<and>
   generateMarkdown mixedPortfolio =
     ''# Acme (50% onshore target)'' @ [CHR 0x0A, CHR 0x0A, CHR 0x0A] @
     ''## Platform'' @ [CHR 0x0A, CHR 0x0A] @
     ''### Core'' @ [CHR 0x0A] @
     ''- 2x Engineer [contractor, offshore, TCS]'' @ [CHR 0x0A] @
     ''- Senior Engineer'' @ [CHR 0x0A] @
     ''- Al Xu, Engineer'' @ [CHR 0x0A] @
     ''- Bo Li, Senior Engineer [contractor, nearshore, Infosys]'' @ [CHR 0x0A]"
proof -
  have h1: "mixedTeam \<in> set (portfolioTeams mixedPortfolio)" by code_simp
  have h2: "\<forall>m\<in>set (filter (\<lambda>m. \<not> truthy (p_name m)) (t_members mixedTeam)).
      p_role m \<in> set allRoles" by code_simp
  note t = generateMarkdown_unnamed_first [OF h1 h2]
  have e: "generateMarkdown mixedPortfolio =
     ''# Acme (50% onshore target)'' @ [CHR 0x0A, CHR 0x0A, CHR 0x0A] @
     ''## Platform'' @ [CHR 0x0A, CHR 0x0A] @
     ''### Core'' @ [CHR 0x0A] @
     ''- 2x Engineer [contractor, offshore, TCS]'' @ [CHR 0x0A] @
     ''- Senior Engineer'' @ [CHR 0x0A] @
     ''- Al Xu, Engineer'' @ [CHR 0x0A] @
     ''- Bo Li, Senior Engineer [contractor, nearshore, Infosys]'' @ [CHR 0x0A]" by code_simp
  have r: "map p_role (filter (\<lambda>m. \<not> truthy (p_name m)) (t_members mixedTeam)) =
     [engineer, senior_engineer, engineer]" by code_simp
  from t h1 r e show ?thesis by (simp only: simp_thms)
qed

section \<open>Properties of the matching\<close>

lemma foldl_bestStep:
  assumes "foldl (bestStep claimed g) best ats = res"
  shows "(res = None \<longleftrightarrow> best = None \<and> (\<forall>a\<in>set ats. a_teamId a \<in> claimed)) \<and>
         (\<forall>bm br. res = Some (bm, br) \<longrightarrow>
            (best = Some (bm, br) \<or>
             bm \<in> set ats \<and> a_teamId bm \<notin> claimed \<and> br = scoreMatch g bm) \<and>
            (\<forall>a\<in>set ats. a_teamId a \<notin> claimed \<longrightarrow> score (scoreMatch g a) \<le> score br) \<and>
            (\<forall>b0 r0. best = Some (b0, r0) \<longrightarrow> score r0 \<le> score br))"
  using assms
proof (induction ats arbitrary: best)
  case Nil
  then show ?case by auto
next
  case (Cons a ats)
  from Cons.prems have r: "foldl (bestStep claimed g) (bestStep claimed g best a) ats = res"
    by simp
  note IH = Cons.IH [OF r]
  show ?case
  proof (cases "a_teamId a \<in> claimed")
    case True
    then have "bestStep claimed g best a = best" by (simp add: bestStep_def)
    with IH True show ?thesis by auto
  next
    case False
    show ?thesis
    proof (cases best)
      case None
      with False have "bestStep claimed g best a = Some (a, scoreMatch g a)"
        by (simp add: bestStep_def)
      with IH False None show ?thesis by auto
    next
      case (Some b)
      obtain b0 r0 where b: "b = (b0, r0)" by (cases b)
      show ?thesis
      proof (cases "score (scoreMatch g a) > score r0")
        case True
        with False Some b have "bestStep claimed g best a = Some (a, scoreMatch g a)"
          by (simp add: bestStep_def)
        with IH False Some b True show ?thesis by fastforce
      next
        case nb: False
        with False Some b have "bestStep claimed g best a = best"
          by (simp add: bestStep_def)
        with IH False Some b nb show ?thesis by fastforce
      qed
    qed
  qed
qed

lemma findBest_None:
  "findBest claimed g ats = None \<longleftrightarrow> (\<forall>a\<in>set ats. a_teamId a \<in> claimed)"
  using foldl_bestStep [of claimed g None ats "findBest claimed g ats"]
  by (simp add: findBest_def)

lemma findBest_Some:
  assumes "findBest claimed g ats = Some (bm, br)"
  shows "bm \<in> set ats" "a_teamId bm \<notin> claimed" "br = scoreMatch g bm"
    "\<forall>a\<in>set ats. a_teamId a \<notin> claimed \<longrightarrow> score (scoreMatch g a) \<le> score br"
  using foldl_bestStep [of claimed g None ats "Some (bm, br)"] assms
  by (auto simp: findBest_def)


lemma importPrefix_Suc:
  "i < length (groupCsvRows (parseCsv csvText)) \<Longrightarrow>
   importPrefix ids csvText pf (i + 1) =
     importGroup ids pf (enumerateTeams pf) (importPrefix ids csvText pf i)
       (groupCsvRows (parseCsv csvText) ! i)"
  by (simp add: importPrefix_def take_Suc_conv_app_nth)

lemma importPrefix_all:
  "runImport ids csvText pf = importPrefix ids csvText pf (length (groupCsvRows (parseCsv csvText)))"
  by (simp add: importPrefix_def runImport_def)

lemma importGroup_unmatched:
  assumes "findBest (claimedTeams st) g ats = None \<or>
           (\<exists>bm br. findBest (claimedTeams st) g ats = Some (bm, br) \<and> score br < MATCH_THRESHOLD)"
  shows "importGroup ids pf ats st g =
     st\<lparr> unmatchedTeams := unmatchedTeams st @
           [\<lparr> um_csvGroup = c_csvGroup g, um_csvTeam = c_csvTeam g,
              um_rowCount = length (c_rows g),
              um_reason = (case findBest (claimedTeams st) g ats of
                             None \<Rightarrow> NoCandidates
                           | Some (bm, br) \<Rightarrow> BestCandidate bm (score br)) \<rparr>],
         skippedRows := skippedRows st @
           map (\<lambda>row. \<lparr>sk_row = row, sk_reason = NoMatchingTeam (c_csvTeam g) (c_csvGroup g)\<rparr>)
             (c_rows g) \<rparr>"
  using assms by (auto simp: importGroup_def Let_def)

lemma importGroup_matched:
  assumes "findBest (claimedTeams st) g ats = Some (bm, br)" and "MATCH_THRESHOLD \<le> score br"
  shows "unmatchedTeams (importGroup ids pf ats st g) = unmatchedTeams st"
    and "claimedTeams (importGroup ids pf ats st g) = insert (a_teamId bm) (claimedTeams st)"
    and "\<exists>r. replacements (importGroup ids pf ats st g) = replacements st @ [r] \<and>
           teamId r = a_teamId bm \<and> portfolioId r = pf_id pf \<and>
           groupId r = a_groupId bm \<and> divisionId r = a_divisionId bm"
    and "\<exists>tc. teamChanges (importGroup ids pf ats st g) = teamChanges st @ [tc]"
  using assms
  by (auto simp: importGroup_def Let_def split: prod.splits)


lemma importGroup_claimed:
  assumes "claimedTeams st = set (map teamId (replacements st))"
    and "distinct (map teamId (replacements st))"
  shows "claimedTeams (importGroup ids pf ats st g) =
           set (map teamId (replacements (importGroup ids pf ats st g))) \<and>
         distinct (map teamId (replacements (importGroup ids pf ats st g)))"
proof (cases "findBest (claimedTeams st) g ats = None \<or>
           (\<exists>bm br. findBest (claimedTeams st) g ats = Some (bm, br) \<and> score br < MATCH_THRESHOLD)")
  case True
  from importGroup_unmatched [OF this, of ids pf] assms show ?thesis by simp
next
  case False
  then obtain bm br where best: "findBest (claimedTeams st) g ats = Some (bm, br)"
    and sc: "MATCH_THRESHOLD \<le> score br"
    by (cases "findBest (claimedTeams st) g ats") auto
  from findBest_Some(2) [OF best] have new: "a_teamId bm \<notin> claimedTeams st" .
  from importGroup_matched(3) [OF best sc, of ids pf] obtain r where
    r: "replacements (importGroup ids pf ats st g) = replacements st @ [r]" "teamId r = a_teamId bm"
    by blast
  with importGroup_matched(2) [OF best sc, of ids pf] new assms show ?thesis by auto
qed

lemma importPrefix_claimed:
  "i \<le> length (groupCsvRows (parseCsv csvText)) \<Longrightarrow>
   claimedTeams (importPrefix ids csvText pf i) =
     set (map teamId (replacements (importPrefix ids csvText pf i))) \<and>
   distinct (map teamId (replacements (importPrefix ids csvText pf i)))"
proof (induction i)
  case 0
  then show ?case by (simp add: importPrefix_def initialImport_def)
next
  case (Suc i)
  then have i: "i < length (groupCsvRows (parseCsv csvText))" by simp
  from Suc have IH: "claimedTeams (importPrefix ids csvText pf i) =
     set (map teamId (replacements (importPrefix ids csvText pf i)))"
     "distinct (map teamId (replacements (importPrefix ids csvText pf i)))"
    by simp_all
  from importGroup_claimed [OF IH] importPrefix_Suc [OF i, of ids pf] show ?case
    by simp
qed

lemma importPrefix_step:
  fixes ids :: "nat \<Rightarrow> string" and csvText :: string and pf :: Portfolio and i :: nat
  defines "g \<equiv> groupCsvRows (parseCsv csvText) ! i"
  defines "before \<equiv> importPrefix ids csvText pf i"
  defines "after \<equiv> importPrefix ids csvText pf (i + 1)"
  defines "best \<equiv> findBest (claimedTeams before) g (enumerateTeams pf)"
  assumes "i < length (groupCsvRows (parseCsv csvText))"
  shows "(unmatchedTeams after \<noteq> unmatchedTeams before \<longleftrightarrow>
            best = None \<or> (\<exists>bm br. best = Some (bm, br) \<and> score br < MATCH_THRESHOLD)) \<and>
         (unmatchedTeams after \<noteq> unmatchedTeams before \<longrightarrow>
            unmatchedTeams after = unmatchedTeams before @
              [\<lparr> um_csvGroup = c_csvGroup g, um_csvTeam = c_csvTeam g,
                 um_rowCount = length (c_rows g),
                 um_reason = (case best of None \<Rightarrow> NoCandidates
                              | Some (bm, br) \<Rightarrow> BestCandidate bm (score br)) \<rparr>] \<and>
            skippedRows after = skippedRows before @
              map (\<lambda>row. \<lparr>sk_row = row, sk_reason = NoMatchingTeam (c_csvTeam g) (c_csvGroup g)\<rparr>)
                (c_rows g) \<and>
            replacements after = replacements before \<and>
            teamChanges after = teamChanges before) \<and>
         (unmatchedTeams after = unmatchedTeams before \<longrightarrow>
            (\<exists>bm br r tc. best = Some (bm, br) \<and> MATCH_THRESHOLD \<le> score br \<and>
               replacements after = replacements before @ [r] \<and> teamId r = a_teamId bm \<and>
               teamChanges after = teamChanges before @ [tc])) \<and>
         (best = None \<longleftrightarrow> (\<forall>a\<in>set (enumerateTeams pf). a_teamId a \<in> claimedTeams before)) \<and>
         (\<forall>bm br. best = Some (bm, br) \<longrightarrow>
            bm \<in> set (enumerateTeams pf) \<and> a_teamId bm \<notin> claimedTeams before \<and>
            br = scoreMatch g bm \<and>
            (\<forall>a\<in>set (enumerateTeams pf). a_teamId a \<notin> claimedTeams before \<longrightarrow>
               score (scoreMatch g a) \<le> score br))"
proof -
  have step: "after = importGroup ids pf (enumerateTeams pf) before g"
    unfolding after_def before_def g_def using assms(5) by (rule importPrefix_Suc)
  have none: "best = None \<longleftrightarrow> (\<forall>a\<in>set (enumerateTeams pf). a_teamId a \<in> claimedTeams before)"
    unfolding best_def by (rule findBest_None)
  have some: "\<forall>bm br. best = Some (bm, br) \<longrightarrow>
            bm \<in> set (enumerateTeams pf) \<and> a_teamId bm \<notin> claimedTeams before \<and>
            br = scoreMatch g bm \<and>
            (\<forall>a\<in>set (enumerateTeams pf). a_teamId a \<notin> claimedTeams before \<longrightarrow>
               score (scoreMatch g a) \<le> score br)"
    unfolding best_def
    by (intro allI impI conjI) (erule findBest_Some)+
  show ?thesis
  proof (cases "best = None \<or> (\<exists>bm br. best = Some (bm, br) \<and> score br < MATCH_THRESHOLD)")
    case True
    then have "after =
     before\<lparr> unmatchedTeams := unmatchedTeams before @
           [\<lparr> um_csvGroup = c_csvGroup g, um_csvTeam = c_csvTeam g,
              um_rowCount = length (c_rows g),
              um_reason = (case best of
                             None \<Rightarrow> NoCandidates
                           | Some (bm, br) \<Rightarrow> BestCandidate bm (score br)) \<rparr>],
         skippedRows := skippedRows before @
           map (\<lambda>row. \<lparr>sk_row = row, sk_reason = NoMatchingTeam (c_csvTeam g) (c_csvGroup g)\<rparr>)
             (c_rows g) \<rparr>"
      unfolding step best_def by (rule importGroup_unmatched)
    then have "unmatchedTeams after = unmatchedTeams before @
              [\<lparr> um_csvGroup = c_csvGroup g, um_csvTeam = c_csvTeam g,
                 um_rowCount = length (c_rows g),
                 um_reason = (case best of None \<Rightarrow> NoCandidates
                              | Some (bm, br) \<Rightarrow> BestCandidate bm (score br)) \<rparr>]"
      and "skippedRows after = skippedRows before @
              map (\<lambda>row. \<lparr>sk_row = row, sk_reason = NoMatchingTeam (c_csvTeam g) (c_csvGroup g)\<rparr>)
                (c_rows g)"
      and "replacements after = replacements before"
      and "teamChanges after = teamChanges before"
      by simp_all
    with True none some show ?thesis by simp
  next
    case False
    then obtain bm br where b: "best = Some (bm, br)" and sc: "MATCH_THRESHOLD \<le> score br"
      by (cases best) auto
    from b have b': "findBest (claimedTeams before) g (enumerateTeams pf) = Some (bm, br)"
      by (simp add: best_def)
    from importGroup_matched [OF b' sc, of ids pf] step
    have "unmatchedTeams after = unmatchedTeams before"
      and "\<exists>r. replacements after = replacements before @ [r] \<and> teamId r = a_teamId bm"
      and "\<exists>tc. teamChanges after = teamChanges before @ [tc]"
      by auto
    with False b sc none some show ?thesis by auto
  qed
qed




text \<open>
  Claim C5. No team identifier occurs twice in the replacements that \<open>analyseImport\<close>
  returns. When the \<open>i\<close>-th group is treated, the teams that earlier groups have claimed
  are out of reach: the group either gets a replacement for a team that is still
  unclaimed and scores highest among the unclaimed ones (at least the threshold), or it is
  recorded as unmatched, and then no unclaimed team reaches the threshold.
  The scores and the threshold are the binary64 numbers that the engine computes.
\<close>

theorem analyseImport_claim_exclusive:
  fixes ids :: "nat \<Rightarrow> string" and csvText :: string and pf :: Portfolio and i :: nat
  defines "g \<equiv> groupCsvRows (parseCsv csvText) ! i"
  defines "before \<equiv> importPrefix ids csvText pf i"
  defines "after \<equiv> importPrefix ids csvText pf (i + 1)"
  defines "unclaimed \<equiv>
    filter (\<lambda>a. a_teamId a \<notin> set (map teamId (replacements before))) (enumerateTeams pf)"
  assumes "i < length (groupCsvRows (parseCsv csvText))"
  shows "distinct (map teamId (snd (analyseImport ids csvText pf))) \<and>
         ((\<exists>r bm. replacements after = replacements before @ [r] \<and>
             unmatchedTeams after = unmatchedTeams before \<and>
             teamId r = a_teamId bm \<and> bm \<in> set unclaimed \<and>
             MATCH_THRESHOLD \<le> score (scoreMatch g bm) \<and>
             (\<forall>a\<in>set unclaimed. score (scoreMatch g a) \<le> score (scoreMatch g bm))) \<or>
          (replacements after = replacements before \<and>
           length (unmatchedTeams after) = length (unmatchedTeams before) + 1 \<and>
           (\<forall>a\<in>set unclaimed. score (scoreMatch g a) < MATCH_THRESHOLD)))"
proof -
  let ?n = "length (groupCsvRows (parseCsv csvText))"
  have "distinct (map teamId (replacements (importPrefix ids csvText pf ?n)))"
    using importPrefix_claimed [of ?n csvText ids pf] by simp
  then have d: "distinct (map teamId (snd (analyseImport ids csvText pf)))"
    by (simp add: analyseImport_def Let_def importPrefix_all)
  have cl: "claimedTeams before = set (map teamId (replacements before))"
    unfolding before_def using importPrefix_claimed [of i csvText ids pf] assms(5) by simp
  have un: "a \<in> set unclaimed \<longleftrightarrow> a \<in> set (enumerateTeams pf) \<and> a_teamId a \<notin> claimedTeams before"
    for a
    by (auto simp: unclaimed_def cl)
  note step = importPrefix_step [OF assms(5), of ids pf, folded g_def before_def after_def]
  let ?best = "findBest (claimedTeams before) g (enumerateTeams pf)"
  show ?thesis
  proof (cases "unmatchedTeams after = unmatchedTeams before")
    case True
    with step obtain bm br r where
      b: "?best = Some (bm, br)" "MATCH_THRESHOLD \<le> score br"
        "replacements after = replacements before @ [r]" "teamId r = a_teamId bm"
      by blast
    with step have "bm \<in> set unclaimed" "br = scoreMatch g bm"
      "\<forall>a\<in>set unclaimed. score (scoreMatch g a) \<le> score br"
      by (auto simp: un)
    with b True d show ?thesis by blast
  next
    case False
    with step have u: "replacements after = replacements before"
      "length (unmatchedTeams after) = length (unmatchedTeams before) + 1"
      by auto
    from False step have c: "?best = None \<or> (\<exists>bm br. ?best = Some (bm, br) \<and> score br < MATCH_THRESHOLD)"
      by blast
    have "\<forall>a\<in>set unclaimed. score (scoreMatch g a) < MATCH_THRESHOLD"
    proof
      fix a assume a: "a \<in> set unclaimed"
      with step un have "?best \<noteq> None" by blast
      with c obtain bm br where b: "?best = Some (bm, br)" "score br < MATCH_THRESHOLD" by blast
      with step a un have "score (scoreMatch g a) \<le> score br" by blast
      with b show "score (scoreMatch g a) < MATCH_THRESHOLD" by simp
    qed
    with u d show ?thesis by blast
  qed
qed

theorem analyseImport_claim_exclusive_witness:
  "1 < length (groupCsvRows (parseCsv exampleCsv)) \<and>
   map teamId (snd (analyseImport showNat exampleCsv examplePortfolio)) = [''t1''] \<and>
   map (\<lambda>a. score (scoreMatch (groupCsvRows (parseCsv exampleCsv) ! 1) a)) (enumerateTeams examplePortfolio) =
     [1707614858711313 / 2251799813685248, fl (3 / 10)] \<and>
   map teamId (replacements (importPrefix showNat exampleCsv examplePortfolio 1)) = [''t1''] \<and>
   map teamId (replacements (importPrefix showNat exampleCsv examplePortfolio 2)) = [''t1'']"
proof -
  have h: "1 < length (groupCsvRows (parseCsv exampleCsv))" by code_simp
  note t = analyseImport_claim_exclusive [OF h, of showNat examplePortfolio]
  have e1: "map teamId (snd (analyseImport showNat exampleCsv examplePortfolio)) = [''t1'']" by code_simp
  have e2: "map (\<lambda>a. score (scoreMatch (groupCsvRows (parseCsv exampleCsv) ! 1) a)) (enumerateTeams examplePortfolio) =
     [1707614858711313 / 2251799813685248, fl (3 / 10)]" by code_simp
  have e3: "map teamId (replacements (importPrefix showNat exampleCsv examplePortfolio 1)) = [''t1'']" by code_simp
  have e4: "map teamId (replacements (importPrefix showNat exampleCsv examplePortfolio 2)) = [''t1'']" by code_simp
  from t h e1 e2 e3 e4 show ?thesis by (simp only: simp_thms)
qed

section \<open>Determinism of the import\<close>

lemma importRows_skip_all:
  assumes "\<not> importedRole (role row)"
  shows "\<exists>x. \<forall>ids n. importRows ids (row # rows) n =
     (fst (importRows ids rows n), fst (snd (importRows ids rows n)),
      x # fst (snd (snd (importRows ids rows n))), snd (snd (snd (importRows ids rows n))))"
proof (cases "mapRole (role row)")
  case None
  then show ?thesis by (auto split: prod.splits)
next
  case (Some r)
  with assms have "r = engineering_manager \<or> r = staff_engineer \<or> r = principal_engineer \<or>
      r = head_of_engineering"
    by (auto simp: importedRole_def)
  with Some show ?thesis
    by (cases "r = engineering_manager"; cases "r = staff_engineer") (auto split: prod.splits)
qed

lemma importRows_take_all:
  assumes "importedRole (role row)"
  shows "fst (snd (importRows ids (row # rows) n)) =
      \<lparr>pc_name = normaliseName (name row), pc_role = role row, pc_location = location row,
        pc_vendor = vendor row, pc_type = fst (mapTypeAndVendor (vendor row))\<rparr> #
      fst (snd (importRows ids rows (n + 1)))"
    and "fst (snd (snd (importRows ids (row # rows) n))) =
      fst (snd (snd (importRows ids rows (n + 1))))"
  using assms
  by (auto simp: importedRole_def Let_def split: option.splits prod.splits)

lemma importRows_engineers:
  "p \<in> set (fst (importRows ids rows n)) \<Longrightarrow> isEngineer p"
proof (induction rows arbitrary: n)
  case Nil
  then show ?case by simp
next
  case (Cons row rows)
  show ?case
  proof (cases "importedRole (role row)")
    case False
    from Cons.prems have "p \<in> set (fst (importRows ids rows n))"
      unfolding importRows_skip [OF False] .
    then show ?thesis by (rule Cons.IH)
  next
    case True
    then have "mapRole (role row) = Some engineer \<or> mapRole (role row) = Some senior_engineer"
      by (simp add: importedRole_iff)
    with Cons True show ?thesis
      by (auto simp: importRows_take isEngineer_def simp del: importRows.simps)
  qed
qed

lemma importRows_ids:
  "map (\<lambda>p. p\<lparr>p_id := []\<rparr>) (fst (importRows ids rows n)) =
     map (\<lambda>p. p\<lparr>p_id := []\<rparr>) (fst (importRows ids' rows n')) \<and>
   fst (snd (importRows ids rows n)) = fst (snd (importRows ids' rows n')) \<and>
   fst (snd (snd (importRows ids rows n))) = fst (snd (snd (importRows ids' rows n')))"
proof (induction rows arbitrary: n n')
  case Nil
  then show ?case by simp
next
  case (Cons row rows)
  show ?case
  proof (cases "importedRole (role row)")
    case False
    from importRows_skip_all [OF False, of rows] obtain x where
      x: "\<And>ids n. importRows ids (row # rows) n =
     (fst (importRows ids rows n), fst (snd (importRows ids rows n)),
      x # fst (snd (snd (importRows ids rows n))), snd (snd (snd (importRows ids rows n))))"
      by blast
    show ?thesis
      using Cons.IH [of n n'] by (simp add: x del: importRows.simps)
  next
    case True
    show ?thesis
      using Cons.IH [of "n + 1" "n' + 1"]
      by (simp add: importRows_take_all [OF True] importRows_take [OF True] del: importRows.simps)
  qed
qed

lemma forgetNewIds_new:
  "\<forall>p\<in>set ps. isEngineer p \<Longrightarrow> map forgetNewIds ps = map (\<lambda>p. p\<lparr>p_id := []\<rparr>) ps"
  by (induction ps) (auto simp: forgetNewIds_def)

lemma forgetNewIds_kept:
  "map forgetNewIds (filter (\<lambda>m. \<not> isEngineer m) ms) = filter (\<lambda>m. \<not> isEngineer m) ms"
  by (induction ms) (auto simp: forgetNewIds_def)

lemma sameUpToIds_importGroup:
  assumes "sameUpToIds st st'"
  shows "sameUpToIds (importGroup ids pf ats st g) (importGroup ids' pf ats st' g)"
proof -
  from assms have cl: "claimedTeams st' = claimedTeams st" by (simp add: sameUpToIds_def)
  show ?thesis
  proof (cases "findBest (claimedTeams st) g ats = None \<or>
           (\<exists>bm br. findBest (claimedTeams st) g ats = Some (bm, br) \<and> score br < MATCH_THRESHOLD)")
    case True
    from importGroup_unmatched [OF True, of ids pf]
      importGroup_unmatched [of st' g ats ids' pf] True assms
    show ?thesis by (simp add: cl sameUpToIds_def)
  next
    case False
    then obtain bm br where best: "findBest (claimedTeams st) g ats = Some (bm, br)"
      and sc: "\<not> score br < MATCH_THRESHOLD"
      by (cases "findBest (claimedTeams st) g ats") auto
    obtain ps cs sk k where r: "importRows ids (c_rows g) (drawn st) = (ps, cs, sk, k)"
      by (cases "importRows ids (c_rows g) (drawn st)") auto
    obtain ps' cs' sk' k' where r': "importRows ids' (c_rows g) (drawn st') = (ps', cs', sk', k')"
      by (cases "importRows ids' (c_rows g) (drawn st')") auto
    from importRows_ids [of ids "c_rows g" "drawn st" ids' "drawn st'"] r r'
    have eq: "map (\<lambda>p. p\<lparr>p_id := []\<rparr>) ps = map (\<lambda>p. p\<lparr>p_id := []\<rparr>) ps'" "cs = cs'" "sk = sk'"
      by simp_all
    have "\<forall>p\<in>set ps. isEngineer p" "\<forall>p\<in>set ps'. isEngineer p"
      using importRows_engineers [of _ ids "c_rows g" "drawn st"]
        importRows_engineers [of _ ids' "c_rows g" "drawn st'"] r r' by auto
    then have "map forgetNewIds ps = map forgetNewIds ps'"
      using eq(1) by (simp add: forgetNewIds_new)
    with assms best sc r r' eq(2,3) show ?thesis
      by (simp add: importGroup_def Let_def cl sameUpToIds_def forgetIds_def forgetNewIds_kept)
  qed
qed

lemma sameUpToIds_foldl:
  "sameUpToIds st st' \<Longrightarrow>
   sameUpToIds (foldl (importGroup ids pf ats) st gs) (foldl (importGroup ids' pf ats) st' gs)"
  by (induction gs arbitrary: st st') (simp_all add: sameUpToIds_importGroup)

text \<open>
  Claim C6 (as amended). The identifiers of the persons that \<open>analyseImport\<close> constructs
  are drawn from \<^verbatim>\<open>crypto.randomUUID()\<close>; \<open>ids\<close> and \<open>ids'\<close> are the draws of two runs.
  Two runs on the same extract and the same portfolio return the same report, and the
  same replacements in the same order with the same members in the same order, up to
  the identifiers of the newly constructed members.
\<close>

theorem analyseImport_same_up_to_new_ids:
  "fst (analyseImport ids csvText pf) = fst (analyseImport ids' csvText pf) \<and>
   map forgetIds (snd (analyseImport ids csvText pf)) =
     map forgetIds (snd (analyseImport ids' csvText pf))"
proof -
  have "sameUpToIds initialImport initialImport" by (simp add: sameUpToIds_def)
  then have "sameUpToIds (runImport ids csvText pf) (runImport ids' csvText pf)"
    unfolding runImport_def by (rule sameUpToIds_foldl)
  then show ?thesis
    by (simp add: analyseImport_def Let_def sameUpToIds_def)
qed

text \<open>
  The claim as first stated fails: two runs that draw different identifiers return
  different replacements.
\<close>

theorem analyseImport_random_ids_counterexample:
  "snd (analyseImport showNat exampleCsv examplePortfolio) \<noteq> snd (analyseImport (\<lambda>n. CHR ''u'' # showNat n) exampleCsv examplePortfolio)"
  by code_simp

end
